theory Spec2Isabelle
  imports Complex_Main
begin

section \<open>The world the client runs in\<close>

text \<open>
  \<^verbatim>\<open>api_framework.py\<close> reads the wall clock (\<^verbatim>\<open>time.time()\<close>), suspends
  (\<^verbatim>\<open>time.sleep\<close>) and talks to a server through \<^verbatim>\<open>requests.Session\<close>. These effects
  are made explicit: a world holds the clock and a ghost log of what happened, and an
  environment says what the server answers to the k-th transport attempt, how long that
  attempt takes, and by how much the k-th suspension overshoots the time asked for.
  Python's floats are modelled as reals: rounding is not part of the model.
\<close>

datatype http_method = GET | POST | PUT | DELETE | PATCH | HEAD | OPTIONS

type_synonym json = string

text \<open>
  The value of a Retry-After header as \<^verbatim>\<open>parse_retry_after\<close> tells them apart: digits, an
  HTTP date (here in seconds since the epoch), or something it cannot parse.
\<close>

datatype retry_after_header = Seconds nat | HttpDate real | Malformed

text \<open>
  A response as far as the client and its libraries look at it: the status code, the
  Retry-After header when the server sent a non-empty one, whether a non-empty Location
  header came with it, whether its body can be read to the end (a connection that breaks
  or times out in the middle of the body makes \<^verbatim>\<open>r.content\<close> raise), and what \<^verbatim>\<open>r.json()\<close>
  yields (\<open>None\<close> when the body is not a JSON document and decoding raises).
\<close>

record response =
  status :: int
  retry_after :: "retry_after_header option"
  location :: bool
  readable :: bool
  decoded :: "json option"

datatype transport_error = ConnectTimeoutError | ReadTimeoutError | ProtocolError

datatype outcome = Received response | Failed transport_error

datatype event =
    Sleep real   \<comment> \<open>\<^verbatim>\<open>time.sleep(d)\<close> was called with this d\<close>
  | Admit real   \<comment> \<open>\<^verbatim>\<open>_rate_limit\<close> returned at this clock reading\<close>
  | Send real    \<comment> \<open>a transport attempt started at this clock reading\<close>

record env =
  respond :: "nat \<Rightarrow> outcome"
  latency :: "nat \<Rightarrow> real"
  oversleep :: "nat \<Rightarrow> real"

record world =
  clock :: real
  trace :: "event list"

fun is_sleep :: "event \<Rightarrow> bool" where
  "is_sleep (Sleep d) = True"
| "is_sleep _ = False"

fun is_admit :: "event \<Rightarrow> bool" where
  "is_admit (Admit t) = True"
| "is_admit _ = False"

fun is_send :: "event \<Rightarrow> bool" where
  "is_send (Send t) = True"
| "is_send _ = False"

definition sleeps :: "world \<Rightarrow> nat" where
  "sleeps w = length (filter is_sleep (trace w))"

definition admits :: "world \<Rightarrow> nat" where
  "admits w = length (filter is_admit (trace w))"

definition attempts :: "world \<Rightarrow> nat" where
  "attempts w = length (filter is_send (trace w))"

text \<open>\<^verbatim>\<open>time.sleep(d)\<close>: the clock moves on by d and by what the environment adds.\<close>

definition time_sleep :: "env \<Rightarrow> real \<Rightarrow> world \<Rightarrow> world" where
  "time_sleep e d w =
     w\<lparr>clock := clock w + d + oversleep e (sleeps w), trace := trace w @ [Sleep d]\<rparr>"

text \<open>
  One exchange with the server: the k-th attempt gets the k-th answer. \<open>Failed\<close> is a
  failure before a response has arrived (connecting, sending, waiting for the status line
  and headers), which is where \<^verbatim>\<open>urlopen\<close> catches errors.
\<close>

definition send :: "env \<Rightarrow> world \<Rightarrow> outcome \<times> world" where
  "send e w =
     (respond e (attempts w),
      w\<lparr>clock := clock w + latency e (attempts w), trace := trace w @ [Send (clock w)]\<rparr>)"

section \<open>The client: construction and rate limiting\<close>

datatype py_error =
    ZeroDivisionError
  | JSONDecodeError
  | HTTPError int                  \<comment> \<open>raised by \<^verbatim>\<open>raise_for_status\<close>\<close>
  | ConnectionError transport_error \<comment> \<open>what \<^verbatim>\<open>requests\<close> raises for a transport failure\<close>
  | RetryError int                 \<comment> \<open>retries exhausted on a status, with \<^verbatim>\<open>raise_on_status\<close>\<close>
  | InvalidHeader                  \<comment> \<open>a Retry-After header that cannot be parsed\<close>
  | ChunkedEncodingError           \<comment> \<open>what \<^verbatim>\<open>r.content\<close> raises when the body cannot be read\<close>
  | TooManyRedirects

text \<open>The \<^verbatim>\<open>Retry\<close> object that \<^verbatim>\<open>__init__\<close> mounts on the session's adapter.\<close>

record retry =
  total :: int
  backoff_factor :: real
  status_forcelist :: "int list"
  allowed_methods :: "http_method list"
  raise_on_status :: bool
  respect_retry_after_header :: bool
  history :: "outcome list"

record client =
  base_url :: string
  timeout :: int
  requests_per_second :: int
  last_call :: real
  headers :: "(string \<times> string) list"
  max_retries :: retry

definition rstrip :: "char \<Rightarrow> string \<Rightarrow> string" where
  "rstrip ch s = rev (dropWhile (\<lambda>x. x = ch) (rev s))"

definition retry_strategy :: "int \<Rightarrow> real \<Rightarrow> retry" where
  "retry_strategy n bf =
     \<lparr>total = n, backoff_factor = bf,
      status_forcelist = [429, 500, 502, 503, 504],
      allowed_methods = [GET, POST, PUT, DELETE, PATCH],
      raise_on_status = False,
      respect_retry_after_header = True,
      history = []\<rparr>"

text \<open>\<^verbatim>\<open>APIClient.__init__(base_url, api_key, requests_per_second, timeout, max_retries, backoff_factor)\<close>\<close>

definition APIClient :: "string \<Rightarrow> string option \<Rightarrow> int \<Rightarrow> int \<Rightarrow> int \<Rightarrow> real \<Rightarrow> client" where
  "APIClient url api_key rps tmo n bf =
     \<lparr>base_url = rstrip CHR ''/'' url,
      timeout = tmo,
      requests_per_second = rps,
      last_call = 0,
      headers = (''User-Agent'', ''Axiom-API-Framework/1.0'') #
        (case api_key of
           None \<Rightarrow> []
         | Some k \<Rightarrow> if k = [] then [] else [(''Authorization'', ''Bearer '' @ k)]),
      max_retries = retry_strategy n bf\<rparr>"

text \<open>
  \<^verbatim>\<open>APIClient._rate_limit\<close>. The division raises when the configured rate is 0. The
  second \<^verbatim>\<open>time.time()\<close> is read in the world after the suspension.
\<close>

definition rate_limit :: "client \<Rightarrow> env \<Rightarrow> world \<Rightarrow> py_error + client \<times> world" where
  "rate_limit c e w =
     (let now = clock w;
          elapsed = now - last_call c
      in if requests_per_second c = 0 then Inl ZeroDivisionError
         else
           let min_interval = 1 / real_of_int (requests_per_second c);
               w1 = (if elapsed < min_interval then time_sleep e (min_interval - elapsed) w
                     else w)
           in Inr (c\<lparr>last_call := clock w1\<rparr>,
                   w1\<lparr>trace := trace w1 @ [Admit (clock w1)]\<rparr>))"

section \<open>Retries: the \<^verbatim>\<open>Retry\<close> strategy run by the session's adapter\<close>

text \<open>
  The retry loop is not written in \<^verbatim>\<open>api_framework.py\<close>: the constructor hands a
  \<^verbatim>\<open>urllib3.util.retry.Retry\<close> to \<^verbatim>\<open>HTTPAdapter\<close>, and \<^verbatim>\<open>session.request\<close> runs it. The
  definitions of this section follow that library (\<^verbatim>\<open>Retry.is_retry\<close>,
  \<^verbatim>\<open>Retry.is_exhausted\<close>, \<^verbatim>\<open>Retry.increment\<close>, \<^verbatim>\<open>Retry.get_backoff_time\<close>,
  \<^verbatim>\<open>Retry.sleep\<close> and the loop of \<^verbatim>\<open>HTTPConnectionPool.urlopen\<close>) for the one counter
  the constructor sets, \<^verbatim>\<open>total\<close>; \<^verbatim>\<open>connect\<close>, \<^verbatim>\<open>read\<close>, \<^verbatim>\<open>redirect\<close>, \<^verbatim>\<open>status\<close> and
  \<^verbatim>\<open>other\<close> keep their default \<^verbatim>\<open>None\<close>. \<^verbatim>\<open>requests\<close> calls \<^verbatim>\<open>urlopen\<close> with
  \<^verbatim>\<open>redirect=False\<close>, so the loop itself follows no redirect.
\<close>

definition BACKOFF_MAX :: real where
  "BACKOFF_MAX = 120"

definition RETRY_AFTER_STATUS_CODES :: "int list" where
  "RETRY_AFTER_STATUS_CODES = [413, 429, 503]"

definition is_method_retryable :: "retry \<Rightarrow> http_method \<Rightarrow> bool" where
  "is_method_retryable r m = (\<not> (allowed_methods r \<noteq> [] \<and> m \<notin> set (allowed_methods r)))"

definition is_retry :: "retry \<Rightarrow> http_method \<Rightarrow> response \<Rightarrow> bool" where
  "is_retry r m resp =
     (if \<not> is_method_retryable r m then False
      else if status_forcelist r \<noteq> [] \<and> status resp \<in> set (status_forcelist r) then True
      else total r \<noteq> 0 \<and> respect_retry_after_header r \<and> retry_after resp \<noteq> None \<and>
           status resp \<in> set RETRY_AFTER_STATUS_CODES)"

text \<open>
  \<^verbatim>\<open>filter(None, retry_counts)\<close> drops the counters that are \<^verbatim>\<open>None\<close> and those that
  are 0; only \<^verbatim>\<open>total\<close> can be left.
\<close>

definition is_exhausted :: "retry \<Rightarrow> bool" where
  "is_exhausted r =
     (let retry_counts = filter (\<lambda>x. x \<noteq> 0) [total r]
      in if retry_counts = [] then False else Min (set retry_counts) < 0)"

definition is_read_error :: "transport_error \<Rightarrow> bool" where
  "is_read_error err = (err = ReadTimeoutError \<or> err = ProtocolError)"

text \<open>
  \<^verbatim>\<open>Retry.increment\<close>: a new \<^verbatim>\<open>Retry\<close> with \<^verbatim>\<open>total\<close> one less and the outcome appended
  to the history, or an exception: the error itself when a read error hits a method that
  is not retried, \<^verbatim>\<open>MaxRetryError\<close> when the new object is exhausted (\<^verbatim>\<open>requests\<close> turns
  it into one of its own exceptions).
\<close>

definition increment :: "retry \<Rightarrow> http_method \<Rightarrow> outcome \<Rightarrow> py_error + retry" where
  "increment r m out =
     (let new_retry = r\<lparr>total := total r - 1, history := history r @ [out]\<rparr>
      in case out of
           Failed err \<Rightarrow>
             if is_read_error err \<and> \<not> is_method_retryable r m then Inl (ConnectionError err)
             else if is_exhausted new_retry then Inl (ConnectionError err)
             else Inr new_retry
         | Received resp \<Rightarrow>
             if is_exhausted new_retry then Inl (RetryError (status resp))
             else Inr new_retry)"

definition get_backoff_time :: "retry \<Rightarrow> real" where
  "get_backoff_time r =
     (let consecutive_errors_len = length (history r)
      in if consecutive_errors_len \<le> 1 then 0
         else min BACKOFF_MAX (backoff_factor r * 2 ^ (consecutive_errors_len - 1)))"

definition sleep_backoff :: "retry \<Rightarrow> env \<Rightarrow> world \<Rightarrow> world" where
  "sleep_backoff r e w =
     (let backoff = get_backoff_time r
      in if backoff \<le> 0 then w else time_sleep e backoff w)"

text \<open>
  \<^verbatim>\<open>parse_retry_after\<close>: digits are seconds, a date is the time left until it, read off
  the clock and not less than 0; anything else raises \<^verbatim>\<open>InvalidHeader\<close>.
\<close>

definition parse_retry_after :: "retry_after_header \<Rightarrow> world \<Rightarrow> py_error + real" where
  "parse_retry_after h w =
     (case h of
        Seconds k \<Rightarrow> Inr (real k)
      | HttpDate retry_date \<Rightarrow>
          (let seconds = retry_date - clock w in Inr (if seconds < 0 then 0 else seconds))
      | Malformed \<Rightarrow> Inl InvalidHeader)"

definition get_retry_after :: "response \<Rightarrow> world \<Rightarrow> py_error + real option" where
  "get_retry_after resp w =
     (case retry_after resp of
        None \<Rightarrow> Inr None
      | Some h \<Rightarrow> (case parse_retry_after h w of Inl ex \<Rightarrow> Inl ex | Inr s \<Rightarrow> Inr (Some s)))"

definition sleep_for_retry :: "response \<Rightarrow> env \<Rightarrow> world \<Rightarrow> py_error + bool \<times> world" where
  "sleep_for_retry resp e w =
     (case get_retry_after resp w of
        Inl ex \<Rightarrow> Inl ex
      | Inr None \<Rightarrow> Inr (False, w)
      | Inr (Some s) \<Rightarrow> if s = 0 then Inr (False, w) else Inr (True, time_sleep e s w))"

definition sleep :: "retry \<Rightarrow> response option \<Rightarrow> env \<Rightarrow> world \<Rightarrow> py_error + world" where
  "sleep r response e w =
     (case response of
        None \<Rightarrow> Inr (sleep_backoff r e w)
      | Some resp \<Rightarrow>
          if respect_retry_after_header r then
            (case sleep_for_retry resp e w of
               Inl ex \<Rightarrow> Inl ex
             | Inr (slept, w1) \<Rightarrow> if slept then Inr w1 else Inr (sleep_backoff r e w1))
          else Inr (sleep_backoff r e w))"

text \<open>
  \<^verbatim>\<open>HTTPConnectionPool.urlopen\<close>: one exchange, then either the answer or, through
  \<^verbatim>\<open>increment\<close> and \<^verbatim>\<open>sleep\<close>, the next round with the new \<^verbatim>\<open>Retry\<close>. An exception of
  \<^verbatim>\<open>sleep\<close> ends the loop. The body of a response that is retried is drained and its
  read errors are swallowed.
\<close>

function urlopen :: "retry \<Rightarrow> http_method \<Rightarrow> env \<Rightarrow> world \<Rightarrow> (py_error + response) \<times> world" where
  "urlopen retries m e w =
     (case send e w of
        (Failed err, w1) \<Rightarrow>
          (case increment retries m (Failed err) of
             Inl ex \<Rightarrow> (Inl ex, w1)
           | Inr retries1 \<Rightarrow>
               (case sleep retries1 None e w1 of
                  Inl ex \<Rightarrow> (Inl ex, w1)
                | Inr w2 \<Rightarrow> urlopen retries1 m e w2))
      | (Received resp, w1) \<Rightarrow>
          if is_retry retries m resp then
            (case increment retries m (Received resp) of
               Inl ex \<Rightarrow> if raise_on_status retries then (Inl ex, w1) else (Inr resp, w1)
             | Inr retries1 \<Rightarrow>
                 (case sleep retries1 (Some resp) e w1 of
                    Inl ex \<Rightarrow> (Inl ex, w1)
                  | Inr w2 \<Rightarrow> urlopen retries1 m e w2))
          else (Inr resp, w1))"
  by pat_completeness auto
termination
proof (relation "measure (\<lambda>(retries, m, e, w). nat (total retries))")
  show "wf (measure (\<lambda>(retries, m, e, w). nat (total retries)))" by simp
next
  fix retries :: retry and m e w x1 w1 err retries1 w2
  assume "increment retries m (Failed err) = Inr retries1"
  then have "total retries1 = total retries - 1 \<and> 0 \<le> total retries1"
    by (auto simp: increment_def is_exhausted_def Let_def split: if_splits)
  then show "((retries1, m, e, w2), retries, m, e, w)
              \<in> measure (\<lambda>(retries, m, e, w). nat (total retries))"
    by simp
next
  fix retries :: retry and m e w x1 w1 resp retries1 w2
  assume "increment retries m (Received resp) = Inr retries1"
  then have "total retries1 = total retries - 1 \<and> 0 \<le> total retries1"
    by (auto simp: increment_def is_exhausted_def Let_def split: if_splits)
  then show "((retries1, m, e, w2), retries, m, e, w)
              \<in> measure (\<lambda>(retries, m, e, w). nat (total retries))"
    by simp
qed

declare urlopen.simps [simp del]

section \<open>The client: requests and verbs\<close>

text \<open>
  \<^verbatim>\<open>session.request\<close> is \<^verbatim>\<open>requests\<close>' code. \<^verbatim>\<open>HTTPAdapter.send\<close> runs \<^verbatim>\<open>urlopen\<close> with
  the \<^verbatim>\<open>Retry\<close> mounted on the adapter (\<^verbatim>\<open>increment\<close> builds new objects and leaves
  that one alone, so every exchange starts from it). \<^verbatim>\<open>Session.send\<close> then reads the
  body, which nothing retries, and, since \<^verbatim>\<open>_request\<close> leaves \<^verbatim>\<open>allow_redirects\<close> at its
  default, follows redirects: a response with a Location header and a status of
  \<^verbatim>\<open>REDIRECT_STATI\<close> is answered with a new exchange, up to \<^verbatim>\<open>max_redirects\<close> times. In
  the library a body that fails to read on a redirect is read a second time from the raw
  socket; the model takes the failure as final there too.
\<close>

definition adapter_send :: "client \<Rightarrow> http_method \<Rightarrow> env \<Rightarrow> world \<Rightarrow> (py_error + response) \<times> world" where
  "adapter_send c m e w = urlopen (max_retries c) m e w"

definition read_content :: "response \<Rightarrow> py_error + response" where
  "read_content r = (if readable r then Inr r else Inl ChunkedEncodingError)"

text \<open>\<^verbatim>\<open>Session.send\<close> for one exchange: the adapter, then \<^verbatim>\<open>r.content\<close>.\<close>

definition session_send :: "client \<Rightarrow> http_method \<Rightarrow> env \<Rightarrow> world \<Rightarrow> (py_error + response) \<times> world" where
  "session_send c m e w =
     (case adapter_send c m e w of
        (Inl ex, w1) \<Rightarrow> (Inl ex, w1)
      | (Inr r, w1) \<Rightarrow> (read_content r, w1))"

definition REDIRECT_STATI :: "int list" where
  "REDIRECT_STATI = [301, 302, 303, 307, 308]"

definition is_redirect :: "response \<Rightarrow> bool" where
  "is_redirect r = (location r \<and> status r \<in> set REDIRECT_STATI)"

definition rebuild_method :: "http_method \<Rightarrow> response \<Rightarrow> http_method" where
  "rebuild_method m r =
     (let m1 = (if status r = 303 \<and> m \<noteq> HEAD then GET else m);
          m2 = (if status r = 302 \<and> m1 \<noteq> HEAD then GET else m1)
      in if status r = 301 \<and> m2 = POST then GET else m2)"

definition max_redirects :: nat where
  "max_redirects = 30"

text \<open>
  \<^verbatim>\<open>resolve_redirects\<close>, with \<open>hops\<close> the number of redirects followed so far
  (\<^verbatim>\<open>len(resp.history)\<close>).
\<close>

function resolve_redirects ::
  "client \<Rightarrow> http_method \<Rightarrow> env \<Rightarrow> nat \<Rightarrow> response \<Rightarrow> world \<Rightarrow> (py_error + response) \<times> world" where
  "resolve_redirects c m e hops resp w =
     (if is_redirect resp then
        if max_redirects \<le> hops then (Inl TooManyRedirects, w)
        else
          (case session_send c (rebuild_method m resp) e w of
             (Inl ex, w1) \<Rightarrow> (Inl ex, w1)
           | (Inr resp1, w1) \<Rightarrow>
               resolve_redirects c (rebuild_method m resp) e (Suc hops) resp1 w1)
      else (Inr resp, w))"
  by pat_completeness auto
termination
  by (relation "measure (\<lambda>(c, m, e, hops, resp, w). max_redirects - hops)") auto

declare resolve_redirects.simps [simp del]

definition session_request :: "client \<Rightarrow> http_method \<Rightarrow> env \<Rightarrow> world \<Rightarrow> (py_error + response) \<times> world" where
  "session_request c m e w =
     (case session_send c m e w of
        (Inl ex, w1) \<Rightarrow> (Inl ex, w1)
      | (Inr resp, w1) \<Rightarrow> resolve_redirects c m e 0 resp w1)"

text \<open>
  \<^verbatim>\<open>APIClient._request\<close>: the rate limiter once, then \<^verbatim>\<open>session.request\<close>. The URL, the
  parameters and the body do not steer the control flow and are left out; the client is
  returned because \<^verbatim>\<open>_rate_limit\<close> has written \<^verbatim>\<open>_last_call\<close>.
\<close>

definition request :: "client \<Rightarrow> http_method \<Rightarrow> env \<Rightarrow> world \<Rightarrow> (py_error + response) \<times> client \<times> world" where
  "request c m e w =
     (case rate_limit c e w of
        Inl ex \<Rightarrow> (Inl ex, c, w)
      | Inr (c1, w1) \<Rightarrow>
          (case session_request c1 m e w1 of (res, w2) \<Rightarrow> (res, c1, w2)))"

definition raise_for_status :: "response \<Rightarrow> py_error + unit" where
  "raise_for_status r =
     (if 400 \<le> status r \<and> status r < 500 then Inl (HTTPError (status r))
      else if 500 \<le> status r \<and> status r < 600 then Inl (HTTPError (status r))
      else Inr ())"

datatype py_value = PyNone | Parsed json

definition response_json :: "response \<Rightarrow> py_error + py_value" where
  "response_json r = (case decoded r of None \<Rightarrow> Inl JSONDecodeError | Some v \<Rightarrow> Inr (Parsed v))"

text \<open>
  \<^verbatim>\<open>get\<close>, \<^verbatim>\<open>post\<close>, \<^verbatim>\<open>put\<close> end with \<^verbatim>\<open>return r.json()\<close>; \<^verbatim>\<open>delete\<close> is declared
  \<^verbatim>\<open>-> None\<close> and ends after \<^verbatim>\<open>r.raise_for_status()\<close>.
\<close>

definition get :: "client \<Rightarrow> env \<Rightarrow> world \<Rightarrow> (py_error + py_value) \<times> client \<times> world" where
  "get c e w =
     (case request c GET e w of
        (Inl ex, c1, w1) \<Rightarrow> (Inl ex, c1, w1)
      | (Inr r, c1, w1) \<Rightarrow>
          (case raise_for_status r of
             Inl ex \<Rightarrow> (Inl ex, c1, w1)
           | Inr u \<Rightarrow> (response_json r, c1, w1)))"

definition post :: "client \<Rightarrow> env \<Rightarrow> world \<Rightarrow> (py_error + py_value) \<times> client \<times> world" where
  "post c e w =
     (case request c POST e w of
        (Inl ex, c1, w1) \<Rightarrow> (Inl ex, c1, w1)
      | (Inr r, c1, w1) \<Rightarrow>
          (case raise_for_status r of
             Inl ex \<Rightarrow> (Inl ex, c1, w1)
           | Inr u \<Rightarrow> (response_json r, c1, w1)))"

definition put :: "client \<Rightarrow> env \<Rightarrow> world \<Rightarrow> (py_error + py_value) \<times> client \<times> world" where
  "put c e w =
     (case request c PUT e w of
        (Inl ex, c1, w1) \<Rightarrow> (Inl ex, c1, w1)
      | (Inr r, c1, w1) \<Rightarrow>
          (case raise_for_status r of
             Inl ex \<Rightarrow> (Inl ex, c1, w1)
           | Inr u \<Rightarrow> (response_json r, c1, w1)))"

definition delete :: "client \<Rightarrow> env \<Rightarrow> world \<Rightarrow> (py_error + py_value) \<times> client \<times> world" where
  "delete c e w =
     (case request c DELETE e w of
        (Inl ex, c1, w1) \<Rightarrow> (Inl ex, c1, w1)
      | (Inr r, c1, w1) \<Rightarrow>
          (case raise_for_status r of
             Inl ex \<Rightarrow> (Inl ex, c1, w1)
           | Inr u \<Rightarrow> (Inr PyNone, c1, w1)))"

section \<open>Auxiliary notions for the proofs\<close>

text \<open>
  Whether \<^verbatim>\<open>urlopen\<close> goes into another round after an outcome, and with which
  \<^verbatim>\<open>Retry\<close> and which response handed to \<^verbatim>\<open>sleep\<close>.
\<close>

definition next_round :: "retry \<Rightarrow> http_method \<Rightarrow> outcome \<Rightarrow> (retry \<times> response option) option" where
  "next_round r m out =
     (case out of
        Failed err \<Rightarrow>
          (case increment r m out of Inl ex \<Rightarrow> None | Inr r1 \<Rightarrow> Some (r1, None))
      | Received resp \<Rightarrow>
          if is_retry r m resp
          then (case increment r m out of Inl ex \<Rightarrow> None | Inr r1 \<Rightarrow> Some (r1, Some resp))
          else None)"

text \<open>Time does not run backwards: no exchange and no suspension takes negative time.\<close>

definition env_ok :: "env \<Rightarrow> bool" where
  "env_ok e = ((\<forall>k. 0 \<le> latency e k) \<and> (\<forall>k. 0 \<le> oversleep e k))"

text \<open>Example servers for the concrete runs: instantaneous, punctual, answering JSON.\<close>

definition plain :: "int \<Rightarrow> response" where
  "plain s = \<lparr>status = s, retry_after = None, location = False, readable = True,
             decoded = Some ''{}''\<rparr>"

definition answering :: "(nat \<Rightarrow> response) \<Rightarrow> env" where
  "answering f = \<lparr>respond = (\<lambda>k. Received (f k)), latency = (\<lambda>k. 0), oversleep = (\<lambda>k. 0)\<rparr>"

fun send_times :: "event list \<Rightarrow> real list" where
  "send_times [] = []"
| "send_times (Send t # evs) = t # send_times evs"
| "send_times (ev # evs) = send_times evs"

fun admit_times :: "event list \<Rightarrow> real list" where
  "admit_times [] = []"
| "admit_times (Admit t # evs) = t # admit_times evs"
| "admit_times (ev # evs) = admit_times evs"

fun gaps_ok :: "real \<Rightarrow> real list \<Rightarrow> bool" where
  "gaps_ok d (a # b # ts) = (a + d \<le> b \<and> gaps_ok d (b # ts))"
| "gaps_ok d ts = True"

text \<open>The log without the clock readings, and what was logged after the last admission.\<close>

fun untimed :: "event \<Rightarrow> event" where
  "untimed (Sleep d) = Sleep d"
| "untimed (Admit t) = Admit 0"
| "untimed (Send t) = Send 0"

definition since_admit :: "event list \<Rightarrow> event list" where
  "since_admit evs = rev (takeWhile (\<lambda>ev. \<not> is_admit ev) (rev evs))"

text \<open>
  An outcome that is retried for its own sake and leaves the delay to the backoff: a
  transport failure, or a status of the constructor's list without a Retry-After header.
\<close>

definition transient :: "outcome \<Rightarrow> bool" where
  "transient out =
     (case out of
        Failed err \<Rightarrow> True
      | Received r \<Rightarrow> status r \<in> {429, 500, 502, 503, 504} \<and> retry_after r = None)"

text \<open>The suspension between attempt i and attempt i + 1, as events of the log.\<close>

definition pause :: "real \<Rightarrow> nat \<Rightarrow> event list" where
  "pause bf i = (if i \<le> 1 then [] else [Sleep (min 120 (bf * 2 ^ (i - 1)))])"

text \<open>
  A caller that makes one call after the other on one client: before each call it idles
  for some time, and it goes on whatever the call returns or raises.
\<close>

fun calls :: "client \<Rightarrow> env \<Rightarrow> world \<Rightarrow> (real \<times> http_method) list \<Rightarrow> client \<times> world" where
  "calls c e w [] = (c, w)"
| "calls c e w ((idle, m) # cs) =
     (case request c m e (w\<lparr>clock := clock w + idle\<rparr>) of (res, c1, w1) \<Rightarrow> calls c1 e w1 cs)"

text \<open>Every reading of a list is at least d after the one before it, the first after a.\<close>

fun spaced :: "real \<Rightarrow> real \<Rightarrow> real list \<Rightarrow> bool" where
  "spaced d a [] = True"
| "spaced d a (t # ts) = (a + d \<le> t \<and> spaced d t ts)"

text \<open>
  \<^verbatim>\<open>_rate_limit\<close> holds no lock. Between its reads (\<^verbatim>\<open>now = time.time()\<close> and
  \<^verbatim>\<open>elapsed = now - self._last_call\<close>) and what follows them, another caller on the same
  client can run. The two parts of \<^verbatim>\<open>_rate_limit\<close>, and a scheduler that runs the parts
  of several callers in a given order on one client: a caller keeps its \<^verbatim>\<open>elapsed\<close> from
  its reads until it finishes.
\<close>

definition rate_limit_read :: "client \<Rightarrow> world \<Rightarrow> real" where
  "rate_limit_read c w = (let now = clock w in now - last_call c)"

definition rate_limit_rest :: "real \<Rightarrow> client \<Rightarrow> env \<Rightarrow> world \<Rightarrow> py_error + client \<times> world" where
  "rate_limit_rest elapsed c e w =
     (if requests_per_second c = 0 then Inl ZeroDivisionError
      else
        let min_interval = 1 / real_of_int (requests_per_second c);
            w1 = (if elapsed < min_interval then time_sleep e (min_interval - elapsed) w
                  else w)
        in Inr (c\<lparr>last_call := clock w1\<rparr>,
                w1\<lparr>trace := trace w1 @ [Admit (clock w1)]\<rparr>))"

datatype step = Reads nat | Finishes nat

fun interleave ::
  "env \<Rightarrow> step list \<Rightarrow> client \<times> world \<times> (nat \<Rightarrow> real option) \<Rightarrow>
     client \<times> world \<times> (nat \<Rightarrow> real option)" where
  "interleave e [] s = s"
| "interleave e (Reads i # steps) (c, w, elapsed) =
     interleave e steps (c, w, elapsed(i \<mapsto> rate_limit_read c w))"
| "interleave e (Finishes i # steps) (c, w, elapsed) =
     (case elapsed i of
        None \<Rightarrow> interleave e steps (c, w, elapsed)
      | Some el \<Rightarrow>
          (case rate_limit_rest el c e w of
             Inl ex \<Rightarrow> interleave e steps (c, w, elapsed(i := None))
           | Inr (c1, w1) \<Rightarrow> interleave e steps (c1, w1, elapsed(i := None))))"

section \<open>Facts about the log, the retry loop and the session\<close>

lemma is_exhausted_iff: "is_exhausted r \<longleftrightarrow> total r < 0"
  by (simp add: is_exhausted_def Let_def)

lemma increment_Inr:
  "increment r m out = Inr r1 \<Longrightarrow>
     r1 = r\<lparr>total := total r - 1, history := history r @ [out]\<rparr> \<and> 1 \<le> total r"
  by (auto simp: increment_def is_exhausted_iff Let_def split: outcome.splits if_splits)

lemma next_round_Some:
  "next_round r m out = Some (r1, ro) \<Longrightarrow>
     r1 = r\<lparr>total := total r - 1, history := history r @ [out]\<rparr> \<and> 1 \<le> total r"
  by (auto simp: next_round_def split: outcome.splits sum.splits if_splits dest: increment_Inr)

lemma urlopen_continue:
  "next_round r m (fst (send e w)) = Some (r1, ro) \<Longrightarrow>
   sleep r1 ro e (snd (send e w)) = Inr w2 \<Longrightarrow>
     urlopen r m e w = urlopen r1 m e w2"
  by (cases "send e w")
    (auto simp: next_round_def urlopen.simps [of r] split: outcome.splits sum.splits if_splits)

lemma urlopen_abort:
  "next_round r m (fst (send e w)) = Some (r1, ro) \<Longrightarrow>
   sleep r1 ro e (snd (send e w)) = Inl ex \<Longrightarrow>
     urlopen r m e w = (Inl ex, snd (send e w))"
  by (cases "send e w")
    (auto simp: next_round_def urlopen.simps [of r] split: outcome.splits sum.splits if_splits)

lemma urlopen_stop:
  "next_round r m (fst (send e w)) = None \<Longrightarrow> snd (urlopen r m e w) = snd (send e w)"
  by (cases "send e w")
    (auto simp: next_round_def urlopen.simps [of r] split: outcome.splits sum.splits if_splits)

text \<open>Induction over the rounds of the retry loop.\<close>

lemma urlopen_rounds [case_names round]:
  assumes "\<And>r w. (\<And>r1 ro w2. next_round r m (fst (send e w)) = Some (r1, ro) \<Longrightarrow>
                       sleep r1 ro e (snd (send e w)) = Inr w2 \<Longrightarrow> P r1 w2) \<Longrightarrow> P r w"
  shows "P r w"
proof (induction "nat (total r)" arbitrary: r w rule: less_induct)
  case less
  show ?case
    apply (rule assms)
    apply (rule less.hyps)
    apply (drule next_round_Some)
    apply simp
    done
qed

text \<open>A round of \<^verbatim>\<open>urlopen\<close>: it stops after its exchange, or goes on in a later world.\<close>

lemma urlopen_round_cases [case_names stop continue]:
  assumes "snd (urlopen r m e w) = snd (send e w) \<Longrightarrow> Q"
    and "\<And>r1 ro w2. next_round r m (fst (send e w)) = Some (r1, ro) \<Longrightarrow>
           sleep r1 ro e (snd (send e w)) = Inr w2 \<Longrightarrow>
           urlopen r m e w = urlopen r1 m e w2 \<Longrightarrow> Q"
  shows Q
proof (cases "next_round r m (fst (send e w))")
  case None
  then show ?thesis using assms(1) urlopen_stop by blast
next
  case (Some p)
  obtain r1 ro where p: "p = (r1, ro)" by (cases p)
  show ?thesis
  proof (cases "sleep r1 ro e (snd (send e w))")
    case (Inl ex)
    then show ?thesis using assms(1) urlopen_abort [OF Some [unfolded p] Inl] by simp
  next
    case (Inr w2)
    then show ?thesis using assms(2) [OF Some [unfolded p] Inr] urlopen_continue [OF Some [unfolded p] Inr]
      by blast
  qed
qed

lemma is_sleep_not_admit: "is_sleep ev \<Longrightarrow> \<not> is_admit ev"
  by (cases ev) simp_all

lemma is_sleep_not_send: "is_sleep ev \<Longrightarrow> \<not> is_send ev"
  by (cases ev) simp_all

lemma trace_time_sleep: "trace (time_sleep e d w) = trace w @ [Sleep d]"
  by (simp add: time_sleep_def)

lemma trace_send: "trace (snd (send e w)) = trace w @ [Send (clock w)]"
  by (simp add: send_def)

lemma fst_send: "fst (send e w) = respond e (attempts w)"
  by (simp add: send_def)

lemma trace_sleep_backoff:
  "trace (sleep_backoff r e w) =
     trace w @ (if get_backoff_time r \<le> 0 then [] else [Sleep (get_backoff_time r)])"
  by (simp add: sleep_backoff_def Let_def trace_time_sleep)

lemma trace_sleep:
  "sleep r ro e w = Inr w2 \<Longrightarrow>
     \<exists>ds. trace w2 = trace w @ ds \<and> (\<forall>ev\<in>set ds. is_sleep ev)"
  by (auto simp: sleep_def sleep_for_retry_def trace_sleep_backoff trace_time_sleep
      split: option.splits sum.splits if_splits)

text \<open>What a run of the retry loop appends to the log: sends and sleeps, starting with a send.\<close>

lemma trace_urlopen:
  "\<exists>evs. trace (snd (urlopen r m e w)) = trace w @ Send (clock w) # evs \<and>
         (\<forall>ev\<in>set evs. \<not> is_admit ev)"
proof (induction r w rule: urlopen_rounds [where m = m and e = e])
  case (round r w)
  show ?case
  proof (cases r m e w rule: urlopen_round_cases)
    case stop
    then show ?thesis by (simp add: trace_send)
  next
    case (continue r1 ro w2)
    let ?w1 = "snd (send e w)"
    obtain ds where ds: "trace w2 = trace ?w1 @ ds" "\<forall>ev\<in>set ds. is_sleep ev"
      using trace_sleep [OF continue(2)] by blast
    obtain evs where evs:
      "trace (snd (urlopen r1 m e w2)) = trace w2 @ Send (clock w2) # evs"
      "\<forall>ev\<in>set evs. \<not> is_admit ev"
      using round [OF continue(1,2)] by blast
    have "\<forall>ev\<in>set ds. \<not> is_admit ev"
      using ds(2) is_sleep_not_admit by blast
    then have "\<forall>ev\<in>set (ds @ Send (clock w2) # evs). \<not> is_admit ev"
      using evs(2) by auto
    moreover have "trace (snd (urlopen r m e w)) =
        trace w @ Send (clock w) # (ds @ Send (clock w2) # evs)"
      using continue(3) evs(1) ds(1) by (simp add: trace_send)
    ultimately show ?thesis by blast
  qed
qed

lemma attempts_append: "trace w' = trace w @ evs \<Longrightarrow> attempts w' = attempts w + length (filter is_send evs)"
  by (simp add: attempts_def)

lemma attempts_send: "attempts (snd (send e w)) = Suc (attempts w)"
  by (simp add: attempts_def trace_send)

lemma attempts_sleep: "sleep r ro e w = Inr w2 \<Longrightarrow> attempts w2 = attempts w"
proof -
  assume "sleep r ro e w = Inr w2"
  then obtain ds where ds: "trace w2 = trace w @ ds" "\<forall>ev\<in>set ds. is_sleep ev"
    using trace_sleep by blast
  have "filter is_send ds = []"
    using ds(2) is_sleep_not_send by (auto simp: filter_empty_conv)
  then show ?thesis using attempts_append [OF ds(1)] by simp
qed


lemma urlopen_attempts_le:
  "attempts (snd (urlopen r m e w)) \<le> attempts w + nat (total r) + 1"
proof (induction r w rule: urlopen_rounds [where m = m and e = e])
  case (round r w)
  show ?case
  proof (cases r m e w rule: urlopen_round_cases)
    case stop
    then show ?thesis by (simp add: attempts_send)
  next
    case (continue r1 ro w2)
    from next_round_Some [OF continue(1)]
    have t: "total r1 = total r - 1" "1 \<le> total r" by auto
    have "attempts (snd (urlopen r1 m e w2)) \<le> attempts w2 + nat (total r1) + 1"
      using round [OF continue(1,2)] .
    then show ?thesis using continue(3) t attempts_sleep [OF continue(2)]
      by (simp add: attempts_send)
  qed
qed

lemma clock_send: "env_ok e \<Longrightarrow> clock w \<le> clock (snd (send e w))"
  by (simp add: send_def env_ok_def)

lemma clock_time_sleep_le: "env_ok e \<Longrightarrow> 0 \<le> d \<Longrightarrow> clock w \<le> clock (time_sleep e d w)"
  by (simp add: time_sleep_def env_ok_def)

lemma parse_retry_after_nonneg: "parse_retry_after h w = Inr s \<Longrightarrow> 0 \<le> s"
  by (auto simp: parse_retry_after_def Let_def split: retry_after_header.splits if_splits)

lemma clock_sleep: "env_ok e \<Longrightarrow> sleep r ro e w = Inr w2 \<Longrightarrow> clock w \<le> clock w2"
  by (auto simp: sleep_def sleep_for_retry_def sleep_backoff_def get_retry_after_def Let_def
      split: option.splits sum.splits if_splits
      dest!: parse_retry_after_nonneg intro!: clock_time_sleep_le)

lemma clock_urlopen: "env_ok e \<Longrightarrow> clock w \<le> clock (snd (urlopen r m e w))"
proof (induction r w rule: urlopen_rounds [where m = m and e = e])
  case (round r w)
  show ?case
  proof (cases r m e w rule: urlopen_round_cases)
    case stop
    then show ?thesis using round.prems by (simp add: clock_send)
  next
    case (continue r1 ro w2)
    have "clock w2 \<le> clock (snd (urlopen r1 m e w2))"
      using round(1) [OF continue(1,2) round.prems] .
    moreover have "clock w \<le> clock w2"
      using clock_send [OF round.prems, of w] clock_sleep [OF round.prems continue(2)] by linarith
    ultimately show ?thesis using continue(3) by simp
  qed
qed

text \<open>A response that \<^verbatim>\<open>urlopen\<close> hands back is one the server gave.\<close>

lemma urlopen_result:
  "fst (urlopen r m e w) = Inr resp \<Longrightarrow> \<exists>k. respond e k = Received resp"
proof (induction r w rule: urlopen_rounds [where m = m and e = e])
  case (round r w)
  show ?case
  proof (cases "next_round r m (fst (send e w))")
    case None
    then have "fst (send e w) = Received resp"
      using round.prems
      by (cases "send e w")
        (auto simp: next_round_def urlopen.simps [of r] split: outcome.splits sum.splits if_splits)
    then show ?thesis by (auto simp: fst_send)
  next
    case (Some p)
    obtain r1 ro where p: "p = (r1, ro)" by (cases p)
    show ?thesis
    proof (cases "sleep r1 ro e (snd (send e w))")
      case (Inl ex)
      then show ?thesis using urlopen_abort [OF Some [unfolded p] Inl] round.prems by simp
    next
      case (Inr w2)
      then show ?thesis
        using round(1) [OF Some [unfolded p] Inr] urlopen_continue [OF Some [unfolded p] Inr]
          round.prems by simp
    qed
  qed
qed

text \<open>The session: one exchange with its body read, and the redirects after it.\<close>

lemma snd_session_send: "snd (session_send c m e w) = snd (urlopen (max_retries c) m e w)"
  by (simp add: session_send_def adapter_send_def split: prod.splits sum.splits)

lemma fst_session_send:
  "fst (session_send c m e w) =
     (case fst (urlopen (max_retries c) m e w) of Inl ex \<Rightarrow> Inl ex | Inr r \<Rightarrow> read_content r)"
  by (simp add: session_send_def adapter_send_def split: prod.splits sum.splits)

lemma session_send_result:
  "fst (session_send c m e w) = Inr resp \<Longrightarrow> \<exists>k. respond e k = Received resp"
  by (auto simp: fst_session_send read_content_def split: sum.splits if_splits
      dest: urlopen_result)

lemma resolve_redirects_done:
  "\<not> is_redirect resp \<Longrightarrow> resolve_redirects c m e hops resp w = (Inr resp, w)"
  by (simp add: resolve_redirects.simps)

lemma resolve_redirects_hop:
  assumes "is_redirect resp" and "hops < max_redirects"
  shows "resolve_redirects c m e hops resp w =
           (case fst (session_send c (rebuild_method m resp) e w) of
              Inl ex \<Rightarrow> (Inl ex, snd (session_send c (rebuild_method m resp) e w))
            | Inr resp1 \<Rightarrow>
                resolve_redirects c (rebuild_method m resp) e (Suc hops) resp1
                  (snd (session_send c (rebuild_method m resp) e w)))"
  using assms
  by (simp add: resolve_redirects.simps [of c m e hops] split: prod.splits sum.splits)

lemma trace_resolve_redirects:
  "\<exists>evs. trace (snd (resolve_redirects c m e hops resp w)) = trace w @ evs \<and>
         (\<forall>ev\<in>set evs. \<not> is_admit ev)"
proof (induction c m e hops resp w rule: resolve_redirects.induct)
  case (1 c m e hops resp w)
  let ?m1 = "rebuild_method m resp"
  let ?w1 = "snd (session_send c ?m1 e w)"
  show ?case
  proof (cases "is_redirect resp \<and> hops < max_redirects")
    case False
    then have "snd (resolve_redirects c m e hops resp w) = w"
      by (auto simp: resolve_redirects.simps [of c m e hops])
    then show ?thesis by simp
  next
    case True
    obtain evs1 where evs1: "trace ?w1 = trace w @ Send (clock w) # evs1"
      "\<forall>ev\<in>set evs1. \<not> is_admit ev"
      using trace_urlopen [of "max_retries c" ?m1 e w] by (auto simp: snd_session_send)
    show ?thesis
    proof (cases "fst (session_send c ?m1 e w)")
      case (Inl ex)
      then have "snd (resolve_redirects c m e hops resp w) = ?w1"
        using True by (simp add: resolve_redirects_hop)
      then show ?thesis using evs1 by auto
    next
      case (Inr resp1)
      have s: "session_send c ?m1 e w = (Inr resp1, ?w1)"
        using Inr by (simp add: prod_eq_iff)
      obtain evs2 where evs2:
        "trace (snd (resolve_redirects c ?m1 e (Suc hops) resp1 ?w1)) = trace ?w1 @ evs2"
        "\<forall>ev\<in>set evs2. \<not> is_admit ev"
        using "1.IH" [OF _ _ s [symmetric] refl] True by auto
      have "snd (resolve_redirects c m e hops resp w) =
              snd (resolve_redirects c ?m1 e (Suc hops) resp1 ?w1)"
        using True Inr by (simp add: resolve_redirects_hop)
      then have "trace (snd (resolve_redirects c m e hops resp w)) =
              trace w @ (Send (clock w) # evs1 @ evs2)"
        using evs1(1) evs2(1) by simp
      moreover have "\<forall>ev\<in>set (Send (clock w) # evs1 @ evs2). \<not> is_admit ev"
        using evs1(2) evs2(2) by auto
      ultimately show ?thesis by blast
    qed
  qed
qed

lemma snd_session_request:
  "snd (session_request c m e w) =
     (case fst (session_send c m e w) of
        Inl ex \<Rightarrow> snd (session_send c m e w)
      | Inr resp \<Rightarrow> snd (resolve_redirects c m e 0 resp (snd (session_send c m e w))))"
  by (simp add: session_request_def split: prod.splits sum.splits)

lemma fst_session_request:
  "fst (session_request c m e w) =
     (case fst (session_send c m e w) of
        Inl ex \<Rightarrow> Inl ex
      | Inr resp \<Rightarrow> fst (resolve_redirects c m e 0 resp (snd (session_send c m e w))))"
  by (simp add: session_request_def split: prod.splits sum.splits)

lemma trace_session_request:
  "\<exists>evs. trace (snd (session_request c m e w)) = trace w @ Send (clock w) # evs \<and>
         (\<forall>ev\<in>set evs. \<not> is_admit ev)"
proof -
  let ?w1 = "snd (session_send c m e w)"
  obtain evs1 where evs1: "trace ?w1 = trace w @ Send (clock w) # evs1"
    "\<forall>ev\<in>set evs1. \<not> is_admit ev"
    using trace_urlopen [of "max_retries c" m e w] by (auto simp: snd_session_send)
  show ?thesis
  proof (cases "fst (session_send c m e w)")
    case (Inl ex)
    then show ?thesis using evs1 by (auto simp: snd_session_request)
  next
    case (Inr resp)
    obtain evs2 where evs2:
      "trace (snd (resolve_redirects c m e 0 resp ?w1)) = trace ?w1 @ evs2"
      "\<forall>ev\<in>set evs2. \<not> is_admit ev"
      using trace_resolve_redirects by blast
    have "trace (snd (session_request c m e w)) = trace w @ Send (clock w) # (evs1 @ evs2)"
      using Inr evs1(1) evs2(1) by (simp add: snd_session_request)
    moreover have "\<forall>ev\<in>set (evs1 @ evs2). \<not> is_admit ev"
      using evs1(2) evs2(2) by auto
    ultimately show ?thesis by blast
  qed
qed

lemma clock_resolve_redirects:
  "env_ok e \<Longrightarrow> clock w \<le> clock (snd (resolve_redirects c m e hops resp w))"
proof (induction c m e hops resp w rule: resolve_redirects.induct)
  case (1 c m e hops resp w)
  let ?m1 = "rebuild_method m resp"
  let ?w1 = "snd (session_send c ?m1 e w)"
  have w1: "clock w \<le> clock ?w1"
    using clock_urlopen [OF "1.prems"] by (simp add: snd_session_send)
  show ?case
  proof (cases "is_redirect resp \<and> hops < max_redirects")
    case False
    then have "snd (resolve_redirects c m e hops resp w) = w"
      by (auto simp: resolve_redirects.simps [of c m e hops])
    then show ?thesis by simp
  next
    case True
    show ?thesis
    proof (cases "fst (session_send c ?m1 e w)")
      case (Inl ex)
      then show ?thesis using True w1 by (simp add: resolve_redirects_hop)
    next
      case (Inr resp1)
      have s: "session_send c ?m1 e w = (Inr resp1, ?w1)"
        using Inr by (simp add: prod_eq_iff)
      have "clock ?w1 \<le> clock (snd (resolve_redirects c ?m1 e (Suc hops) resp1 ?w1))"
        using "1.IH" [OF _ _ s [symmetric] refl "1.prems"] True by auto
      then show ?thesis using True Inr w1 by (simp add: resolve_redirects_hop)
    qed
  qed
qed

lemma clock_session_request:
  "env_ok e \<Longrightarrow> clock w \<le> clock (snd (session_request c m e w))"
proof -
  assume ok: "env_ok e"
  have w1: "clock w \<le> clock (snd (session_send c m e w))"
    using clock_urlopen [OF ok] by (simp add: snd_session_send)
  show ?thesis
  proof (cases "fst (session_send c m e w)")
    case (Inl ex)
    then show ?thesis using w1 by (simp add: snd_session_request)
  next
    case (Inr resp)
    then show ?thesis
      using w1 clock_resolve_redirects [OF ok, of "snd (session_send c m e w)" c m 0 resp]
      by (simp add: snd_session_request)
  qed
qed

text \<open>How many attempts: per exchange, and over the redirects.\<close>

lemma session_send_attempts_le:
  "attempts (snd (session_send c m e w)) \<le> attempts w + nat (total (max_retries c)) + 1"
  using urlopen_attempts_le [of "max_retries c" m e w] by (simp add: snd_session_send)


lemma resolve_redirects_attempts_le:
  "attempts (snd (resolve_redirects c m e hops resp w))
     \<le> attempts w + (max_redirects - hops) * (nat (total (max_retries c)) + 1)"
proof (induction c m e hops resp w rule: resolve_redirects.induct)
  case (1 c m e hops resp w)
  let ?m1 = "rebuild_method m resp"
  let ?w1 = "snd (session_send c ?m1 e w)"
  let ?k = "nat (total (max_retries c)) + 1"
  have w1: "attempts ?w1 \<le> attempts w + ?k" using session_send_attempts_le [of c ?m1 e w] by simp
  show ?case
  proof (cases "is_redirect resp \<and> hops < max_redirects")
    case False
    then have "snd (resolve_redirects c m e hops resp w) = w"
      by (auto simp: resolve_redirects.simps [of c m e hops])
    then show ?thesis by simp
  next
    case True
    then have split: "(max_redirects - hops) * ?k = ?k + (max_redirects - Suc hops) * ?k"
      by (metis Suc_diff_Suc mult_Suc)
    show ?thesis
    proof (cases "fst (session_send c ?m1 e w)")
      case (Inl ex)
      then have "snd (resolve_redirects c m e hops resp w) = ?w1"
        using True by (simp add: resolve_redirects_hop)
      then show ?thesis using w1 unfolding split by simp
    next
      case (Inr resp1)
      have s: "session_send c ?m1 e w = (Inr resp1, ?w1)"
        using Inr by (simp add: prod_eq_iff)
      have "attempts (snd (resolve_redirects c ?m1 e (Suc hops) resp1 ?w1))
              \<le> attempts ?w1 + (max_redirects - Suc hops) * ?k"
        using "1.IH" [OF _ _ s [symmetric] refl] True by auto
      moreover have "snd (resolve_redirects c m e hops resp w) =
              snd (resolve_redirects c ?m1 e (Suc hops) resp1 ?w1)"
        using True Inr by (simp add: resolve_redirects_hop)
      ultimately show ?thesis using w1 unfolding split by simp
    qed
  qed
qed

lemma session_request_attempts_le:
  "attempts (snd (session_request c m e w))
     \<le> attempts w + (max_redirects + 1) * (nat (total (max_retries c)) + 1)"
proof (cases "fst (session_send c m e w)")
  case (Inl ex)
  then show ?thesis using session_send_attempts_le [of c m e w] by (simp add: snd_session_request)
next
  case (Inr resp)
  then show ?thesis
    using session_send_attempts_le [of c m e w]
      resolve_redirects_attempts_le [of c m e 0 resp "snd (session_send c m e w)"]
    by (simp add: snd_session_request)
qed

text \<open>Without a redirect to follow, the session is the one exchange.\<close>

lemma session_request_no_redirect:
  assumes "\<And>resp. fst (session_send c m e w) = Inr resp \<Longrightarrow> \<not> is_redirect resp"
  shows "session_request c m e w = session_send c m e w"
proof (cases "fst (session_send c m e w)")
  case (Inl ex)
  then show ?thesis by (simp add: prod_eq_iff fst_session_request snd_session_request)
next
  case (Inr resp)
  then show ?thesis using assms [OF Inr]
    by (simp add: prod_eq_iff fst_session_request snd_session_request resolve_redirects_done)
qed


text \<open>The session looks at nothing of the client but the mounted \<^verbatim>\<open>Retry\<close>.\<close>

lemma session_send_cong:
  "max_retries c' = max_retries c \<Longrightarrow> session_send c' m e w = session_send c m e w"
  by (simp add: session_send_def adapter_send_def)

lemma resolve_redirects_cong:
  "max_retries c' = max_retries c \<Longrightarrow>
     resolve_redirects c' m e hops resp w = resolve_redirects c m e hops resp w"
proof (induction c m e hops resp w rule: resolve_redirects.induct)
  case (1 c m e hops resp w)
  show ?case
  proof (cases "is_redirect resp \<and> hops < max_redirects")
    case False
    then show ?thesis
      by (auto simp: resolve_redirects.simps [of c m e hops] resolve_redirects.simps [of c' m e hops])
  next
    case True
    let ?m1 = "rebuild_method m resp"
    have ss: "session_send c' ?m1 e w = session_send c ?m1 e w"
      using "1.prems" by (rule session_send_cong)
    show ?thesis
    proof (cases "fst (session_send c ?m1 e w)")
      case (Inl ex)
      then show ?thesis using True ss by (simp add: resolve_redirects_hop)
    next
      case (Inr resp1)
      have s: "session_send c ?m1 e w = (Inr resp1, snd (session_send c ?m1 e w))"
        using Inr by (simp add: prod_eq_iff)
      have "resolve_redirects c' ?m1 e (Suc hops) resp1 (snd (session_send c ?m1 e w)) =
            resolve_redirects c ?m1 e (Suc hops) resp1 (snd (session_send c ?m1 e w))"
        using "1.IH" [OF _ _ s [symmetric] refl "1.prems"] True by auto
      then show ?thesis using True Inr ss by (simp add: resolve_redirects_hop)
    qed
  qed
qed

lemma session_request_cong:
  "max_retries c' = max_retries c \<Longrightarrow> session_request c' m e w = session_request c m e w"
  by (simp add: session_request_def session_send_cong [of c' c] resolve_redirects_cong [of c' c]
      split: prod.splits sum.splits)

text \<open>One call of \<^verbatim>\<open>_request\<close>, taken apart.\<close>

lemma request_zero:
  "requests_per_second c = 0 \<Longrightarrow> request c m e w = (Inl ZeroDivisionError, c, w)"
  by (simp add: request_def rate_limit_def Let_def)

lemma request_limited:
  assumes "requests_per_second c \<noteq> 0"
  obtains w1 pre where
    "rate_limit c e w = Inr (c\<lparr>last_call := clock w1\<rparr>, w1\<lparr>trace := trace w1 @ [Admit (clock w1)]\<rparr>)"
    "request c m e w =
       (fst (session_request c m e (w1\<lparr>trace := trace w1 @ [Admit (clock w1)]\<rparr>)),
        c\<lparr>last_call := clock w1\<rparr>,
        snd (session_request c m e (w1\<lparr>trace := trace w1 @ [Admit (clock w1)]\<rparr>)))"
    "trace w1 = trace w @ pre" "\<forall>ev\<in>set pre. is_sleep ev"
proof -
  let ?mi = "1 / real_of_int (requests_per_second c)"
  let ?w1 = "if clock w - last_call c < ?mi then time_sleep e (?mi - (clock w - last_call c)) w else w"
  let ?pre = "if clock w - last_call c < ?mi then [Sleep (?mi - (clock w - last_call c))] else []"
  have 1: "rate_limit c e w =
      Inr (c\<lparr>last_call := clock ?w1\<rparr>, ?w1\<lparr>trace := trace ?w1 @ [Admit (clock ?w1)]\<rparr>)"
    using assms by (simp add: rate_limit_def Let_def)
  have 2: "request c m e w =
       (fst (session_request c m e (?w1\<lparr>trace := trace ?w1 @ [Admit (clock ?w1)]\<rparr>)),
        c\<lparr>last_call := clock ?w1\<rparr>,
        snd (session_request c m e (?w1\<lparr>trace := trace ?w1 @ [Admit (clock ?w1)]\<rparr>)))"
    unfolding request_def 1 by (simp add: session_request_cong [of "c\<lparr>last_call := _\<rparr>" c] split: prod.splits)
  have 3: "trace ?w1 = trace w @ ?pre" by (simp add: trace_time_sleep)
  have 4: "\<forall>ev\<in>set ?pre. is_sleep ev" by simp
  show thesis using that [OF 1 2 3 4] .
qed

lemma request_session:
  assumes "requests_per_second c \<noteq> 0"
  obtains w2 where
    "fst (request c m e w) = fst (session_request c m e w2)"
    "snd (snd (request c m e w)) = snd (session_request c m e w2)"
    "attempts w2 = attempts w"
proof -
  obtain w1 pre where r:
    "request c m e w =
       (fst (session_request c m e (w1\<lparr>trace := trace w1 @ [Admit (clock w1)]\<rparr>)),
        c\<lparr>last_call := clock w1\<rparr>,
        snd (session_request c m e (w1\<lparr>trace := trace w1 @ [Admit (clock w1)]\<rparr>)))"
    "trace w1 = trace w @ pre" "\<forall>ev\<in>set pre. is_sleep ev"
    using assms by (rule request_limited [where e = e and w = w and m = m])
  have "filter is_send pre = []"
    using r(3) is_sleep_not_send by (auto simp: filter_empty_conv)
  then have "attempts (w1\<lparr>trace := trace w1 @ [Admit (clock w1)]\<rparr>) = attempts w"
    using r(2) by (simp add: attempts_def)
  then show thesis using that [of "w1\<lparr>trace := trace w1 @ [Admit (clock w1)]\<rparr>"] r(1) by simp
qed

lemma snd_get: "snd (get c e w) = snd (request c GET e w)"
  by (simp add: get_def split: prod.splits sum.splits)

lemma snd_post: "snd (post c e w) = snd (request c POST e w)"
  by (simp add: post_def split: prod.splits sum.splits)

lemma snd_put: "snd (put c e w) = snd (request c PUT e w)"
  by (simp add: put_def split: prod.splits sum.splits)

lemma snd_delete: "snd (delete c e w) = snd (request c DELETE e w)"
  by (simp add: delete_def split: prod.splits sum.splits)

lemma retry_strategy_simps:
  "total (retry_strategy n bf) = n"
  "backoff_factor (retry_strategy n bf) = bf"
  "status_forcelist (retry_strategy n bf) = [429, 500, 502, 503, 504]"
  "allowed_methods (retry_strategy n bf) = [GET, POST, PUT, DELETE, PATCH]"
  "raise_on_status (retry_strategy n bf) = False"
  "respect_retry_after_header (retry_strategy n bf) = True"
  "history (retry_strategy n bf) = []"
  by (simp_all add: retry_strategy_def)

lemmas run_defs =
  get_def post_def put_def delete_def request_def rate_limit_def session_request_def
  session_send_def adapter_send_def read_content_def is_redirect_def REDIRECT_STATI_def
  rebuild_method_def max_redirects_def
  send_def APIClient_def retry_strategy_def attempts_def admits_def sleeps_def
  is_retry_def is_method_retryable_def increment_def is_exhausted_def sleep_def
  sleep_for_retry_def get_retry_after_def parse_retry_after_def sleep_backoff_def
  get_backoff_time_def BACKOFF_MAX_def RETRY_AFTER_STATUS_CODES_def time_sleep_def
  raise_for_status_def response_json_def answering_def plain_def Let_def

lemma fst_get:
  "fst (get c e w) =
     (case fst (request c GET e w) of
        Inl ex \<Rightarrow> Inl ex
      | Inr r \<Rightarrow> (case raise_for_status r of Inl ex \<Rightarrow> Inl ex | Inr u \<Rightarrow> response_json r))"
  by (simp add: get_def split: prod.splits sum.splits)

lemma fst_post:
  "fst (post c e w) =
     (case fst (request c POST e w) of
        Inl ex \<Rightarrow> Inl ex
      | Inr r \<Rightarrow> (case raise_for_status r of Inl ex \<Rightarrow> Inl ex | Inr u \<Rightarrow> response_json r))"
  by (simp add: post_def split: prod.splits sum.splits)

lemma fst_put:
  "fst (put c e w) =
     (case fst (request c PUT e w) of
        Inl ex \<Rightarrow> Inl ex
      | Inr r \<Rightarrow> (case raise_for_status r of Inl ex \<Rightarrow> Inl ex | Inr u \<Rightarrow> response_json r))"
  by (simp add: put_def split: prod.splits sum.splits)

lemma fst_delete:
  "fst (delete c e w) =
     (case fst (request c DELETE e w) of
        Inl ex \<Rightarrow> Inl ex
      | Inr r \<Rightarrow> (case raise_for_status r of Inl ex \<Rightarrow> Inl ex | Inr u \<Rightarrow> Inr PyNone))"
  by (simp add: delete_def split: prod.splits sum.splits)

lemma next_round_forced:
  assumes "is_method_retryable r m" and "status resp \<in> set (status_forcelist r)"
  shows "next_round r m (Received resp) =
           (if 1 \<le> total r
            then Some (r\<lparr>total := total r - 1, history := history r @ [Received resp]\<rparr>, Some resp)
            else None)"
  using assms
  by (auto simp: next_round_def is_retry_def increment_def is_exhausted_iff Let_def)

lemma next_round_failed:
  assumes "is_method_retryable r m"
  shows "next_round r m (Failed err) =
           (if 1 \<le> total r
            then Some (r\<lparr>total := total r - 1, history := history r @ [Failed err]\<rparr>, None)
            else None)"
  using assms
  by (auto simp: next_round_def increment_def is_exhausted_iff Let_def)

text \<open>Outcomes that are retried and leave the delay to the backoff.\<close>

lemma next_round_transient:
  assumes "status_forcelist r = [429, 500, 502, 503, 504]" and "is_method_retryable r m"
    and "transient out"
  shows "next_round r m out =
           (if 1 \<le> total r
            then Some (r\<lparr>total := total r - 1, history := history r @ [out]\<rparr>,
                       case out of Failed err \<Rightarrow> None | Received resp \<Rightarrow> Some resp)
            else None)"
proof (cases out)
  case (Failed err)
  then show ?thesis using next_round_failed [OF assms(2)] by simp
next
  case (Received resp)
  then have "status resp \<in> set (status_forcelist r)"
    using assms(1,3) by (auto simp: transient_def)
  then show ?thesis using next_round_forced [OF assms(2)] Received by simp
qed

lemma sleep_transient:
  assumes "transient out"
  shows "sleep r (case out of Failed err \<Rightarrow> None | Received resp \<Rightarrow> Some resp) e w =
           Inr (sleep_backoff r e w)"
  using assms
  by (auto simp: transient_def sleep_def sleep_for_retry_def get_retry_after_def
      split: outcome.splits)

lemma trace_sleep_backoff_pause:
  assumes "0 < backoff_factor r"
  shows "trace (sleep_backoff r e w) = trace w @ pause (backoff_factor r) (length (history r))"
proof (cases "length (history r) \<le> 1")
  case True
  then show ?thesis
    by (simp add: trace_sleep_backoff get_backoff_time_def pause_def)
next
  case False
  have "0 < backoff_factor r * 2 ^ (length (history r) - 1)" using assms by simp
  then have "0 < min 120 (backoff_factor r * 2 ^ (length (history r) - 1))" by simp
  then show ?thesis using False
    by (simp add: trace_sleep_backoff get_backoff_time_def pause_def BACKOFF_MAX_def Let_def)
qed

lemma untimed_pause: "map untimed (pause bf i) = pause bf i"
  by (simp add: pause_def)

lemma upt_step:
  assumes "1 \<le> (t::int)"
  shows "[Suc h ..< Suc h + nat t] = Suc h # [Suc (Suc h) ..< Suc (Suc h) + nat (t - 1)]"
proof -
  have lt: "Suc h < Suc h + nat t" using assms by simp
  have eq: "Suc h + nat t = Suc (Suc h) + nat (t - 1)" using assms by (simp add: nat_diff_distrib)
  show ?thesis using upt_conv_Cons [OF lt] by (simp only: eq)
qed

lemma urlopen_transient:
  assumes "status_forcelist r = [429, 500, 502, 503, 504]" and "is_method_retryable r m"
    and "0 < backoff_factor r" and "0 \<le> total r" and "\<forall>k. transient (respond e k)"
  shows "\<exists>evs. trace (snd (urlopen r m e w)) = trace w @ evs \<and>
           map untimed evs =
             Send 0 # concat (map (\<lambda>i. pause (backoff_factor r) i @ [Send 0])
               [Suc (length (history r)) ..< Suc (length (history r)) + nat (total r)])"
  using assms
proof (induction r w rule: urlopen_rounds [where m = m and e = e])
  case (round r w)
  let ?out = "fst (send e w)"
  let ?h = "length (history r)"
  have tr: "transient ?out" using round.prems(5) by (simp add: fst_send)
  note nr = next_round_transient [OF round.prems(1,2) tr]
  show ?case
  proof (cases "1 \<le> total r")
    case False
    then have "total r = 0" using round.prems(4) by simp
    then show ?thesis using nr by (simp add: urlopen_stop trace_send)
  next
    case True
    let ?r1 = "r\<lparr>total := total r - 1, history := history r @ [?out]\<rparr>"
    let ?ro = "case ?out of Failed err \<Rightarrow> None | Received resp \<Rightarrow> Some resp"
    let ?w1 = "sleep_backoff ?r1 e (snd (send e w))"
    have sl: "sleep ?r1 ?ro e (snd (send e w)) = Inr ?w1" by (rule sleep_transient [OF tr])
    have n: "next_round r m ?out = Some (?r1, ?ro)" using nr True by simp
    have w1: "trace ?w1 = trace w @ Send (clock w) # pause (backoff_factor r) (Suc ?h)"
      using trace_sleep_backoff_pause [of ?r1 e "snd (send e w)"] round.prems(3)
      by (simp add: trace_send)
    have r1: "length (history ?r1) = Suc ?h" "total ?r1 = total r - 1"
        "backoff_factor ?r1 = backoff_factor r"
      by simp_all
    have "\<exists>evs. trace (snd (urlopen ?r1 m e ?w1)) = trace ?w1 @ evs \<and>
           map untimed evs =
             Send 0 # concat (map (\<lambda>i. pause (backoff_factor ?r1) i @ [Send 0])
               [Suc (length (history ?r1)) ..< Suc (length (history ?r1)) + nat (total ?r1)])"
    proof (rule round.IH [OF n sl])
      show "status_forcelist ?r1 = [429, 500, 502, 503, 504]" using round.prems(1) by simp
      show "is_method_retryable ?r1 m" using round.prems(2) by (simp add: is_method_retryable_def)
      show "0 < backoff_factor ?r1" using round.prems(3) by simp
      show "0 \<le> total ?r1" using True by simp
      show "\<forall>k. transient (respond e k)" by (rule round.prems(5))
    qed
    then obtain evs where evs0: "trace (snd (urlopen ?r1 m e ?w1)) = trace ?w1 @ evs \<and>
      map untimed evs =
         Send 0 # concat (map (\<lambda>i. pause (backoff_factor r) i @ [Send 0])
           [Suc (Suc ?h) ..< Suc (Suc ?h) + nat (total r - 1)])"
      unfolding r1 ..
    note evs = conjunct1 [OF evs0] conjunct2 [OF evs0]
    have up: "[Suc ?h ..< Suc ?h + nat (total r)] =
              Suc ?h # [Suc (Suc ?h) ..< Suc (Suc ?h) + nat (total r - 1)]"
      using True by (rule upt_step)
    have "trace (snd (urlopen r m e w)) =
            trace w @ (Send (clock w) # pause (backoff_factor r) (Suc ?h) @ evs)"
      using evs(1) w1 by (simp add: urlopen_continue [OF n sl])
    moreover have "map untimed (Send (clock w) # pause (backoff_factor r) (Suc ?h) @ evs) =
        Send 0 # concat (map (\<lambda>i. pause (backoff_factor r) i @ [Send 0])
               [Suc ?h ..< Suc ?h + nat (total r)])"
      unfolding up using evs(2) by (simp add: untimed_pause del: upt_Suc)
    ultimately show ?thesis
      by (intro exI [of _ "Send (clock w) # pause (backoff_factor r) (Suc ?h) @ evs"] conjI)
  qed
qed

lemma since_admit_append:
  assumes "\<forall>ev\<in>set evs. \<not> is_admit ev"
  shows "since_admit (pre @ Admit t # evs) = evs"
proof -
  have tw: "takeWhile (\<lambda>ev. \<not> is_admit ev) (rev evs) = rev evs" using assms by simp
  have "since_admit (pre @ Admit t # evs) =
          rev (takeWhile (\<lambda>ev. \<not> is_admit ev) (rev evs @ Admit t # rev pre))"
    by (simp add: since_admit_def)
  also have "\<dots> = rev (takeWhile (\<lambda>ev. \<not> is_admit ev) (rev evs))"
    by (simp add: takeWhile_tail)
  also have "\<dots> = rev (rev evs)" by (simp only: tw)
  finally show ?thesis by simp
qed

lemma untimed_not_admit:
  "map untimed evs = Send 0 # concat (map (\<lambda>i. pause bf i @ [Send 0]) is) \<Longrightarrow>
     \<forall>ev\<in>set evs. \<not> is_admit ev"
proof -
  assume a: "map untimed evs = Send 0 # concat (map (\<lambda>i. pause bf i @ [Send 0]) is)"
  have u: "is_admit (untimed ev) = is_admit ev" for ev by (cases ev) simp_all
  have "\<forall>ev\<in>set (Send 0 # concat (map (\<lambda>i. pause bf i @ [Send 0]) is)). \<not> is_admit ev"
    by (auto simp: pause_def split: if_splits)
  then have "\<forall>ev\<in>set (map untimed evs). \<not> is_admit ev" using a by simp
  then show ?thesis using u by simp
qed

lemma admit_times_append: "admit_times (xs @ ys) = admit_times xs @ admit_times ys"
  by (induction xs rule: admit_times.induct) simp_all

lemma admit_times_none: "\<forall>ev\<in>set evs. \<not> is_admit ev \<Longrightarrow> admit_times evs = []"
  by (induction evs rule: admit_times.induct) simp_all

lemma spaced_gaps_ok: "spaced d a ts \<Longrightarrow> gaps_ok d ts"
  by (induction d ts arbitrary: a rule: gaps_ok.induct) auto

lemma transient_no_redirect:
  assumes "\<forall>k. transient (respond e k)"
  shows "session_request c m e w = session_send c m e w"
proof (rule session_request_no_redirect)
  fix resp
  assume "fst (session_send c m e w) = Inr resp"
  then obtain k where "respond e k = Received resp" using session_send_result by blast
  then have "transient (Received resp)" using assms by metis
  then show "\<not> is_redirect resp"
    by (auto simp: transient_def is_redirect_def REDIRECT_STATI_def)
qed

lemma request_admission:
  assumes "0 < requests_per_second c" and "env_ok e"
  obtains t where
    "fst (snd (request c m e w)) = c\<lparr>last_call := t\<rparr>"
    "admit_times (trace (snd (snd (request c m e w)))) = admit_times (trace w) @ [t]"
    "last_call c + 1 / real_of_int (requests_per_second c) \<le> t"
    "clock w \<le> t"
    "t \<le> clock (snd (snd (request c m e w)))"
proof -
  let ?mi = "1 / real_of_int (requests_per_second c)"
  let ?w1 = "if clock w - last_call c < ?mi then time_sleep e (?mi - (clock w - last_call c)) w else w"
  let ?w2 = "?w1\<lparr>trace := trace ?w1 @ [Admit (clock ?w1)]\<rparr>"
  have 1: "rate_limit c e w = Inr (c\<lparr>last_call := clock ?w1\<rparr>, ?w2)"
    using assms(1) by (simp add: rate_limit_def Let_def)
  have 2: "request c m e w =
       (fst (session_request c m e ?w2), c\<lparr>last_call := clock ?w1\<rparr>,
        snd (session_request c m e ?w2))"
    unfolding request_def 1 by (simp add: session_request_cong [of "c\<lparr>last_call := _\<rparr>" c] split: prod.splits)
  have o: "0 \<le> oversleep e (sleeps w)" using assms(2) by (simp add: env_ok_def)
  have a: "fst (snd (request c m e w)) = c\<lparr>last_call := clock ?w1\<rparr>"
    by (simp add: 2)
  obtain evs where evs: "trace (snd (session_request c m e ?w2)) = trace ?w2 @ Send (clock ?w2) # evs"
    "\<forall>ev\<in>set evs. \<not> is_admit ev"
    using trace_session_request by blast
  have "admit_times (trace ?w1) = admit_times (trace w)"
    by (simp add: trace_time_sleep admit_times_append)
  then have b: "admit_times (trace (snd (snd (request c m e w)))) = admit_times (trace w) @ [clock ?w1]"
    using evs by (simp add: 2 admit_times_append admit_times_none)
  have c: "last_call c + ?mi \<le> clock ?w1"
    using o by (simp add: time_sleep_def)
  have d: "clock w \<le> clock ?w1"
    using o by (simp add: time_sleep_def)
  have "clock ?w2 \<le> clock (snd (session_request c m e ?w2))"
    using assms(2) by (rule clock_session_request)
  then have f: "clock ?w1 \<le> clock (snd (snd (request c m e w)))"
    by (simp add: 2)
  show thesis using that [OF a b c d f] .
qed

lemma calls_admissions:
  assumes "0 < requests_per_second c" and "env_ok e"
  shows "\<exists>ts. admit_times (trace (snd (calls c e w cs))) = admit_times (trace w) @ ts \<and>
           length ts = length cs \<and>
           spaced (1 / real_of_int (requests_per_second c)) (last_call c) ts"
  using assms(1)
proof (induction cs arbitrary: c w)
  case Nil
  then show ?case by simp
next
  case (Cons x cs)
  obtain idle m where x: "x = (idle, m)" by (cases x)
  let ?w0 = "w\<lparr>clock := clock w + idle\<rparr>"
  let ?c1 = "fst (snd (request c m e ?w0))"
  let ?w1 = "snd (snd (request c m e ?w0))"
  obtain t where t: "?c1 = c\<lparr>last_call := t\<rparr>"
    "admit_times (trace ?w1) = admit_times (trace ?w0) @ [t]"
    "last_call c + 1 / real_of_int (requests_per_second c) \<le> t"
    using Cons.prems assms(2) by (rule request_admission [where m = m and w = ?w0])
  have s: "calls c e w (x # cs) = calls ?c1 e ?w1 cs"
    by (simp add: x split: prod.splits)
  have rps: "requests_per_second ?c1 = requests_per_second c" by (simp add: t(1))
  obtain ts where ts: "admit_times (trace (snd (calls ?c1 e ?w1 cs))) = admit_times (trace ?w1) @ ts"
    "length ts = length cs"
    "spaced (1 / real_of_int (requests_per_second c)) t ts"
    using Cons.IH [of ?c1 ?w1] Cons.prems rps by (auto simp: t(1))
  have "admit_times (trace (snd (calls c e w (x # cs)))) = admit_times (trace w) @ (t # ts)"
    using ts(1) t(2) by (simp add: s)
  moreover have "length (t # ts) = length (x # cs)" using ts(2) by simp
  moreover have "spaced (1 / real_of_int (requests_per_second c)) (last_call c) (t # ts)"
    using ts(3) t(3) by simp
  ultimately show ?case by (intro exI [of _ "t # ts"] conjI)
qed

lemma calls_clock:
  assumes "0 < requests_per_second c" and "env_ok e" and "cs \<noteq> []"
  shows "last_call c + real (length cs) / real_of_int (requests_per_second c)
           \<le> clock (snd (calls c e w cs))"
  using assms(1,3)
proof (induction cs arbitrary: c w)
  case Nil
  then show ?case by simp
next
  case (Cons x cs)
  obtain idle m where x: "x = (idle, m)" by (cases x)
  let ?w0 = "w\<lparr>clock := clock w + idle\<rparr>"
  let ?c1 = "fst (snd (request c m e ?w0))"
  let ?w1 = "snd (snd (request c m e ?w0))"
  let ?d = "1 / real_of_int (requests_per_second c)"
  obtain t where t: "?c1 = c\<lparr>last_call := t\<rparr>"
    "last_call c + ?d \<le> t" "t \<le> clock ?w1"
    using Cons.prems(1) assms(2) by (rule request_admission [where m = m and w = ?w0])
  have s: "calls c e w (x # cs) = calls ?c1 e ?w1 cs"
    by (simp add: x split: prod.splits)
  have len: "real (length (x # cs)) / real_of_int (requests_per_second c)
               = ?d + real (length cs) / real_of_int (requests_per_second c)"
    by (simp add: add_divide_distrib)
  show ?case
  proof (cases "cs = []")
    case True
    then show ?thesis using t(2,3) s by simp
  next
    case False
    have "last_call ?c1 + real (length cs) / real_of_int (requests_per_second ?c1)
            \<le> clock (snd (calls ?c1 e ?w1 cs))"
      using Cons.IH [of ?c1 ?w1] Cons.prems(1) False by (simp add: t(1))
    then have "t + real (length cs) / real_of_int (requests_per_second c)
            \<le> clock (snd (calls c e w (x # cs)))"
      by (simp add: t(1) s)
    then show ?thesis using t(2) unfolding len by linarith
  qed
qed


lemma sleep_well_formed:
  "retry_after resp \<noteq> Some Malformed \<Longrightarrow> \<exists>w2. sleep r (Some resp) e w = Inr w2"
  by (cases "retry_after resp")
    (auto simp: sleep_def sleep_for_retry_def get_retry_after_def parse_retry_after_def Let_def
      split: retry_after_header.splits)


lemma urlopen_stop_fst:
  assumes "next_round r m (fst (send e w)) = None" and "fst (send e w) = Received resp"
    and "\<not> raise_on_status r"
  shows "fst (urlopen r m e w) = Inr resp"
  using assms
  by (cases "send e w")
    (auto simp: next_round_def urlopen.simps [of r] split: sum.splits if_splits)

text \<open>A server that answers every attempt with a status of the list.\<close>

lemma urlopen_forced:
  assumes "\<forall>k. \<exists>resp. respond e k = Received resp \<and> status resp \<in> set (status_forcelist r) \<and>
             retry_after resp \<noteq> Some Malformed"
    and "is_method_retryable r m" and "0 \<le> total r" and "\<not> raise_on_status r"
  shows "attempts (snd (urlopen r m e w)) = attempts w + nat (total r) + 1 \<and>
         (\<exists>resp. respond e (attempts w + nat (total r)) = Received resp \<and>
                 fst (urlopen r m e w) = Inr resp)"
  using assms
proof (induction r w rule: urlopen_rounds [where m = m and e = e])
  case (round r w)
  obtain resp where resp: "fst (send e w) = Received resp"
      "status resp \<in> set (status_forcelist r)" "retry_after resp \<noteq> Some Malformed"
    using round.prems(1) by (auto simp: send_def)
  note nr = next_round_forced [OF round.prems(2) resp(2)]
  show ?case
  proof (cases "1 \<le> total r")
    case False
    then have z: "total r = 0" using round.prems(3) by simp
    then have n: "next_round r m (fst (send e w)) = None" using nr resp by simp
    have "respond e (attempts w) = Received resp" using resp(1) by (simp add: fst_send)
    then show ?thesis
      using urlopen_stop [OF n] urlopen_stop_fst [OF n resp(1) round.prems(4)] z
      by (simp add: attempts_send)
  next
    case True
    let ?r1 = "r\<lparr>total := total r - 1, history := history r @ [Received resp]\<rparr>"
    have n: "next_round r m (fst (send e w)) = Some (?r1, Some resp)"
      using nr resp True by simp
    obtain w2 where sl: "sleep ?r1 (Some resp) e (snd (send e w)) = Inr w2"
      using sleep_well_formed [OF resp(3)] by blast
    have a2: "attempts w2 = Suc (attempts w)"
      using attempts_sleep [OF sl] by (simp add: attempts_send)
    have "attempts (snd (urlopen ?r1 m e w2)) = attempts w2 + nat (total ?r1) + 1 \<and>
         (\<exists>resp. respond e (attempts w2 + nat (total ?r1)) = Received resp \<and>
                 fst (urlopen ?r1 m e w2) = Inr resp)"
    proof (rule round.IH [OF n sl])
      show "\<forall>k. \<exists>resp. respond e k = Received resp \<and> status resp \<in> set (status_forcelist ?r1) \<and>
             retry_after resp \<noteq> Some Malformed"
        using round.prems(1) by simp
      show "is_method_retryable ?r1 m" using round.prems(2) by (simp add: is_method_retryable_def)
      show "0 \<le> total ?r1" using True by simp
      show "\<not> raise_on_status ?r1" using round.prems(4) by simp
    qed
    moreover have "attempts w2 + nat (total ?r1) = attempts w + nat (total r)"
      using a2 True by (simp add: nat_diff_distrib)
    ultimately show ?thesis by (simp add: urlopen_continue [OF n sl])
  qed
qed




text \<open>The rate limiter in one call and in two parts.\<close>

lemma rate_limit_parts: "rate_limit c e w = rate_limit_rest (rate_limit_read c w) c e w"
  by (simp add: rate_limit_def rate_limit_rest_def rate_limit_read_def Let_def)

lemma rate_limit_admission:
  assumes "0 < requests_per_second c" and "\<forall>k. 0 \<le> oversleep e k"
  obtains w1 where
    "rate_limit c e w = Inr (c\<lparr>last_call := clock w1\<rparr>, w1)"
    "admit_times (trace w1) = admit_times (trace w) @ [clock w1]"
    "last_call c + 1 / real_of_int (requests_per_second c) \<le> clock w1"
proof -
  let ?mi = "1 / real_of_int (requests_per_second c)"
  let ?w1 = "if clock w - last_call c < ?mi then time_sleep e (?mi - (clock w - last_call c)) w else w"
  let ?w2 = "?w1\<lparr>trace := trace ?w1 @ [Admit (clock ?w1)]\<rparr>"
  have o: "0 \<le> oversleep e (sleeps w)" using assms(2) by simp
  have 1: "rate_limit c e w = Inr (c\<lparr>last_call := clock ?w2\<rparr>, ?w2)"
    using assms(1) by (simp add: rate_limit_def Let_def)
  have 2: "admit_times (trace ?w2) = admit_times (trace w) @ [clock ?w2]"
    by (simp add: trace_time_sleep admit_times_append)
  have 3: "last_call c + ?mi \<le> clock ?w2"
    using o by (simp add: time_sleep_def)
  show thesis using that [OF 1 2 3] .
qed

lemma request_attempts_le:
  "attempts (snd (snd (request c m e w)))
     \<le> attempts w + (max_redirects + 1) * (nat (total (max_retries c)) + 1)"
proof (cases "requests_per_second c = 0")
  case True
  then show ?thesis by (simp add: request_zero)
next
  case False
  then obtain w2 where w2:
    "snd (snd (request c m e w)) = snd (session_request c m e w2)" "attempts w2 = attempts w"
    by (rule request_session [where m = m and e = e and w = w])
  show ?thesis using session_request_attempts_le [of c m e w2] w2 by simp
qed

lemma request_attempts_plain_le:
  assumes "\<forall>k r. respond e k = Received r \<longrightarrow> \<not> is_redirect r"
  shows "attempts (snd (snd (request c m e w))) \<le> attempts w + nat (total (max_retries c)) + 1"
proof (cases "requests_per_second c = 0")
  case True
  then show ?thesis by (simp add: request_zero)
next
  case False
  then obtain w2 where w2:
    "snd (snd (request c m e w)) = snd (session_request c m e w2)" "attempts w2 = attempts w"
    by (rule request_session [where m = m and e = e and w = w])
  have "session_request c m e w2 = session_send c m e w2"
  proof (rule session_request_no_redirect)
    fix resp
    assume "fst (session_send c m e w2) = Inr resp"
    then obtain k where "respond e k = Received resp" using session_send_result by blast
    then show "\<not> is_redirect resp" using assms by blast
  qed
  then show ?thesis using session_send_attempts_le [of c m e w2] w2 by simp
qed

lemma request_always_503:
  assumes "requests_per_second c \<noteq> 0" and "max_retries c = retry_strategy n bf" and "0 \<le> n"
    and "\<forall>k. \<exists>resp. respond e k = Received resp \<and> status resp = 503 \<and>
           retry_after resp \<noteq> Some Malformed"
    and "m \<in> {GET, POST, PUT, DELETE, PATCH}"
  shows "attempts (snd (snd (request c m e w))) = attempts w + nat n + 1 \<and>
         (\<exists>resp. respond e (attempts w + nat n) = Received resp \<and> status resp = 503 \<and>
                 fst (request c m e w) = read_content resp)"
proof -
  obtain w2 where w2:
    "fst (request c m e w) = fst (session_request c m e w2)"
    "snd (snd (request c m e w)) = snd (session_request c m e w2)" "attempts w2 = attempts w"
    using assms(1) by (rule request_session [where m = m and e = e and w = w])
  have st: "status resp = 503" if "respond e k = Received resp" for k resp
    using assms(4) that by (metis outcome.inject(1))
  have sr: "session_request c m e w2 = session_send c m e w2"
  proof (rule session_request_no_redirect)
    fix resp
    assume "fst (session_send c m e w2) = Inr resp"
    then obtain k where "respond e k = Received resp" using session_send_result by blast
    then have "status resp = 503" by (rule st)
    then show "\<not> is_redirect resp" by (simp add: is_redirect_def REDIRECT_STATI_def)
  qed
  let ?r = "retry_strategy n bf"
  have f: "\<forall>k. \<exists>resp. respond e k = Received resp \<and> status resp \<in> set (status_forcelist ?r) \<and>
             retry_after resp \<noteq> Some Malformed"
  proof
    fix k
    obtain resp where "respond e k = Received resp" "status resp = 503"
      "retry_after resp \<noteq> Some Malformed"
      using assms(4) by blast
    then show "\<exists>resp. respond e k = Received resp \<and> status resp \<in> set (status_forcelist ?r) \<and>
             retry_after resp \<noteq> Some Malformed"
      by (simp add: retry_strategy_simps)
  qed
  have mr: "is_method_retryable ?r m"
    using assms(5) by (auto simp: is_method_retryable_def retry_strategy_simps)
  have "attempts (snd (urlopen ?r m e w2)) = attempts w2 + nat (total ?r) + 1 \<and>
         (\<exists>resp. respond e (attempts w2 + nat (total ?r)) = Received resp \<and>
                 fst (urlopen ?r m e w2) = Inr resp)"
    using assms(3) by (intro urlopen_forced [OF f mr]) (simp_all add: retry_strategy_simps)
  then obtain resp where resp: "attempts (snd (urlopen ?r m e w2)) = attempts w + nat n + 1"
    "respond e (attempts w + nat n) = Received resp" "fst (urlopen ?r m e w2) = Inr resp"
    using w2(3) by (auto simp: retry_strategy_simps)
  have "attempts (snd (snd (request c m e w))) = attempts w + nat n + 1"
    using resp(1) by (simp add: w2(2) sr snd_session_send assms(2))
  moreover have "fst (request c m e w) = read_content resp"
    using resp(3) by (simp add: w2(1) sr fst_session_send assms(2))
  ultimately show ?thesis using resp(2) st by blast
qed

lemma raise_503:
  "status resp = 503 \<Longrightarrow>
     (case read_content resp of
        Inl ex \<Rightarrow> Inl ex
      | Inr r \<Rightarrow> (case raise_for_status r of Inl ex \<Rightarrow> Inl ex | Inr u \<Rightarrow> f r)) =
     Inl (if readable resp then HTTPError 503 else ChunkedEncodingError)"
  by (simp add: read_content_def raise_for_status_def)






section \<open>Rate limiter: one call\<close>

text \<open>
  C5. With a positive configured rate, \<^verbatim>\<open>_rate_limit\<close> raises nothing and does exactly
  this: with elapsed = now - last_call and min_interval = 1 / requests_per_second, it
  suspends when elapsed < min_interval, asking for min_interval - elapsed, and does not
  suspend otherwise; it then stores in last_call the clock as read after the suspension,
  which is the reading before the suspension moved on by the time slept.
\<close>

theorem rate_limit_steps:
  assumes "0 < requests_per_second c"
  shows "case rate_limit c e w of
           Inl ex \<Rightarrow> False
         | Inr (c', w') \<Rightarrow>
             c' = c\<lparr>last_call := clock w'\<rparr> \<and>
             (if clock w - last_call c < 1 / real_of_int (requests_per_second c)
              then trace w' = trace w @
                     [Sleep (1 / real_of_int (requests_per_second c) - (clock w - last_call c)),
                      Admit (clock w')] \<and>
                   clock w' = clock w +
                     (1 / real_of_int (requests_per_second c) - (clock w - last_call c)) +
                     oversleep e (sleeps w)
              else trace w' = trace w @ [Admit (clock w')] \<and> clock w' = clock w)"
  using assms by (simp add: rate_limit_def time_sleep_def Let_def)

theorem rate_limit_steps_witness:
  "0 < requests_per_second (APIClient ''http://h/'' None 5 30 4 1\<lparr>last_call := 1000\<rparr>) \<and>
   rate_limit (APIClient ''http://h/'' None 5 30 4 1\<lparr>last_call := 1000\<rparr>)
     \<lparr>respond = (\<lambda>k. Failed ProtocolError), latency = (\<lambda>k. 0), oversleep = (\<lambda>k. 1 / 100)\<rparr>
     \<lparr>clock = 1000 + 1 / 20, trace = []\<rparr> =
   Inr (APIClient ''http://h/'' None 5 30 4 1\<lparr>last_call := 1000 + 1 / 5 + 1 / 100\<rparr>,
        \<lparr>clock = 1000 + 1 / 5 + 1 / 100,
         trace = [Sleep (3 / 20), Admit (1000 + 1 / 5 + 1 / 100)]\<rparr>)"
  using rate_limit_steps [where c = "APIClient ''http://h/'' None 5 30 4 1\<lparr>last_call := 1000\<rparr>"
      and e = "\<lparr>respond = (\<lambda>k. Failed ProtocolError), latency = (\<lambda>k. 0), oversleep = (\<lambda>k. 1 / 100)\<rparr>"
      and w = "\<lparr>clock = 1000 + 1 / 20, trace = []\<rparr>"]
  by (auto simp add: APIClient_def sleeps_def split: sum.splits)

text \<open>
  C10. A client fresh from the constructor has last_call = 0. Whenever the clock reads
  at least one second past the epoch, its first \<^verbatim>\<open>_rate_limit\<close> with any positive
  (integer) rate does not suspend: no \<^verbatim>\<open>time.sleep\<close> is logged and the clock is
  untouched.
\<close>

theorem first_call_not_delayed:
  assumes "0 < rps" and "1 \<le> clock w"
  shows "rate_limit (APIClient url key rps tmo n bf) e w =
           Inr (APIClient url key rps tmo n bf\<lparr>last_call := clock w\<rparr>,
                w\<lparr>trace := trace w @ [Admit (clock w)]\<rparr>)"
proof -
  have "1 \<le> real_of_int rps" using assms(1) by simp
  then have "1 / real_of_int rps \<le> 1" by simp
  then have "\<not> clock w < 1 / real_of_int rps" using assms(2) by linarith
  then show ?thesis using assms(1)
    by (simp add: rate_limit_def APIClient_def Let_def)
qed

theorem first_call_not_delayed_witness:
  "(0::int) < 10 \<and> (1::real) \<le> 1700000000 \<and>
   rate_limit (APIClient ''https://api.example.com/'' None 10 30 5 (1 / 2))
     \<lparr>respond = (\<lambda>k. Failed ProtocolError), latency = (\<lambda>k. 0), oversleep = (\<lambda>k. 0)\<rparr>
     \<lparr>clock = 1700000000, trace = []\<rparr> =
   Inr (APIClient ''https://api.example.com/'' None 10 30 5 (1 / 2)\<lparr>last_call := 1700000000\<rparr>,
        \<lparr>clock = 1700000000, trace = [Admit 1700000000]\<rparr>)"
  using first_call_not_delayed [where rps = 10 and w = "\<lparr>clock = 1700000000, trace = []\<rparr>"
      and url = "''https://api.example.com/''" and key = None and tmo = 30 and n = 5 and bf = "1 / 2"
      and e = "\<lparr>respond = (\<lambda>k. Failed ProtocolError), latency = (\<lambda>k. 0), oversleep = (\<lambda>k. 0)\<rparr>"]
  by simp

section \<open>Retries and the rate limiter\<close>

text \<open>
  C1, as stated, fails. A client with one request per second and a server that answers
  503 and then 200: one \<^verbatim>\<open>get\<close> passes the rate limiter once and makes two transport
  attempts, both at clock reading 1000, so closer together than the one second the
  configured rate asks for.
\<close>

theorem retry_bypasses_rate_limit:
  "trace (snd (snd (get (APIClient ''http://h/'' None 1 30 5 (1 / 2))
       (answering (\<lambda>k. plain (if k = 0 then 503 else 200)))
       \<lparr>clock = 1000, trace = []\<rparr>))) = [Admit 1000, Send 1000, Send 1000] \<and>
   \<not> gaps_ok (1 / real_of_int (requests_per_second (APIClient ''http://h/'' None 1 30 5 (1 / 2))))
       (send_times [Admit 1000, Send 1000, Send 1000])"
  by (simp add: run_defs urlopen.simps resolve_redirects.simps)

text \<open>
  C1, amended. With a rate other than 0, one call of \<^verbatim>\<open>_request\<close> passes the rate
  limiter exactly once, before its first transport attempt: what the call appends to the
  log is the limiter's suspension (if any), its admission at some reading t, the first
  attempt at that same t, and after that no further admission, however many attempts and
  backoff suspensions follow.
\<close>

theorem request_rate_limited_once:
  assumes "requests_per_second c \<noteq> 0"
  shows "admits (snd (snd (request c m e w))) = Suc (admits w) \<and>
         (\<exists>pre t evs. trace (snd (snd (request c m e w))) = trace w @ pre @ Admit t # Send t # evs \<and>
            (\<forall>ev\<in>set pre. is_sleep ev) \<and> (\<forall>ev\<in>set evs. \<not> is_admit ev))"
proof -
  obtain w1 pre where r:
    "request c m e w =
       (fst (session_request c m e (w1\<lparr>trace := trace w1 @ [Admit (clock w1)]\<rparr>)),
        c\<lparr>last_call := clock w1\<rparr>,
        snd (session_request c m e (w1\<lparr>trace := trace w1 @ [Admit (clock w1)]\<rparr>)))"
    "trace w1 = trace w @ pre" "\<forall>ev\<in>set pre. is_sleep ev"
    using assms by (rule request_limited [where e = e and w = w and m = m])
  let ?w2 = "w1\<lparr>trace := trace w1 @ [Admit (clock w1)]\<rparr>"
  obtain evs where evs: "trace (snd (session_request c m e ?w2)) = trace ?w2 @ Send (clock ?w2) # evs"
    "\<forall>ev\<in>set evs. \<not> is_admit ev"
    using trace_session_request by blast
  have t: "trace (snd (snd (request c m e w))) = trace w @ pre @ Admit (clock w1) # Send (clock w1) # evs"
    using r(1,2) evs(1) by simp
  have "filter is_admit pre = []"
    using r(3) is_sleep_not_admit by (auto simp: filter_empty_conv)
  moreover have "filter is_admit evs = []"
    using evs(2) by (auto simp: filter_empty_conv)
  ultimately have "admits (snd (snd (request c m e w))) = Suc (admits w)"
    using t by (simp add: admits_def)
  then show ?thesis using t r(3) evs(2) by blast
qed

theorem request_rate_limited_once_witness:
  "requests_per_second (APIClient ''http://h/'' None 1 30 5 (1 / 2)) \<noteq> 0 \<and>
   admits (snd (snd (request (APIClient ''http://h/'' None 1 30 5 (1 / 2)) GET
       (answering (\<lambda>k. plain (if k = 0 then 503 else 200)))
       \<lparr>clock = 1000, trace = []\<rparr>))) = 1 \<and>
   attempts (snd (snd (request (APIClient ''http://h/'' None 1 30 5 (1 / 2)) GET
       (answering (\<lambda>k. plain (if k = 0 then 503 else 200)))
       \<lparr>clock = 1000, trace = []\<rparr>))) = 2"
  using request_rate_limited_once [where c = "APIClient ''http://h/'' None 1 30 5 (1 / 2)"
      and m = GET and e = "answering (\<lambda>k. plain (if k = 0 then 503 else 200))"
      and w = "\<lparr>clock = 1000, trace = []\<rparr>"]
  by (simp add: run_defs urlopen.simps resolve_redirects.simps)

section \<open>Which statuses are retried\<close>

text \<open>
  C7: a server that always answers 501. \<^verbatim>\<open>get\<close> makes one attempt and raises the
  \<^verbatim>\<open>HTTPError\<close> for 501 at once, with five retries still allowed: 501 is not in
  \<^verbatim>\<open>status_forcelist\<close>. A 503 from the same client is retried.
\<close>

theorem status_501_not_retried:
  "fst (get (APIClient ''http://h/'' None 5 30 5 (1 / 2)) (answering (\<lambda>k. plain 501))
          \<lparr>clock = 1000, trace = []\<rparr>) = Inl (HTTPError 501) \<and>
   attempts (snd (snd (get (APIClient ''http://h/'' None 5 30 5 (1 / 2)) (answering (\<lambda>k. plain 501))
          \<lparr>clock = 1000, trace = []\<rparr>))) = 1 \<and>
   attempts (snd (snd (get (APIClient ''http://h/'' None 5 30 5 (1 / 2)) (answering (\<lambda>k. plain 503))
          \<lparr>clock = 1000, trace = []\<rparr>))) = 6"
  by (simp add: run_defs urlopen.simps resolve_redirects.simps)

section \<open>Backoff between attempts\<close>

text \<open>
  C4, as stated, fails at the first retry. A client with \<^verbatim>\<open>max_retries\<close> = 4 and
  \<^verbatim>\<open>backoff_factor\<close> = 1 against a server that always answers 503: the second attempt is
  sent without any suspension, at the clock reading of the first, and the suspensions
  before the third, fourth and fifth attempt ask for 2, 4 and 8 seconds. The backoff after
  one failure is 0, not \<^verbatim>\<open>backoff_factor\<close> * 2 ^ (1 - 1) = 1.
\<close>

theorem first_retry_not_delayed:
  "trace (snd (snd (get (APIClient ''http://h/'' None 5 30 4 1) (answering (\<lambda>k. plain 503))
       \<lparr>clock = 1000, trace = []\<rparr>))) =
     [Admit 1000, Send 1000, Send 1000, Sleep 2, Send 1002, Sleep 4, Send 1006,
      Sleep 8, Send 1014] \<and>
   get_backoff_time (retry_strategy 4 1\<lparr>total := 3, history := [Received (plain 503)]\<rparr>) = 0 \<and>
   get_backoff_time (retry_strategy 4 1\<lparr>total := 3, history := [Received (plain 503)]\<rparr>)
     \<noteq> backoff_factor (retry_strategy 4 1) * 2 ^ (1 - 1)"
  by (simp add: run_defs urlopen.simps resolve_redirects.simps)

text \<open>
  C4, amended. Take a client built with \<^verbatim>\<open>max_retries\<close> = n \<ge> 0 and
  \<^verbatim>\<open>backoff_factor\<close> = bf > 0, a rate other than 0, a method the strategy retries, and a
  server whose every outcome is a transport failure or a status of the list without a
  Retry-After header. After the admission by the rate limiter the call logs the first
  attempt and then, for i = 1, \<dots>, n, the suspension before attempt i + 1 followed by
  that attempt: no suspension at all for i = 1, and for i \<ge> 2 one suspension asking for
  min 120 (bf * 2 ^ (i - 1)) seconds. Nothing random enters: the log is this list.
\<close>

theorem backoff_schedule:
  assumes "max_retries c = retry_strategy n bf" and "0 \<le> n" and "0 < bf"
    and "requests_per_second c \<noteq> 0" and "m \<in> {GET, POST, PUT, DELETE, PATCH}"
    and "\<forall>k. transient (respond e k)"
  shows "map untimed (since_admit (trace (snd (snd (request c m e w))))) =
           Send 0 # concat (map (\<lambda>i. pause bf i @ [Send 0]) [1 ..< Suc (nat n)])"
proof -
  obtain w1 pre where r:
    "request c m e w =
       (fst (session_request c m e (w1\<lparr>trace := trace w1 @ [Admit (clock w1)]\<rparr>)),
        c\<lparr>last_call := clock w1\<rparr>,
        snd (session_request c m e (w1\<lparr>trace := trace w1 @ [Admit (clock w1)]\<rparr>)))"
    using assms(4) by (rule request_limited [where e = e and w = w and m = m])
  let ?w2 = "w1\<lparr>trace := trace w1 @ [Admit (clock w1)]\<rparr>"
  let ?r = "retry_strategy n bf"
  have mr: "is_method_retryable ?r m"
    using assms(5) by (auto simp: is_method_retryable_def retry_strategy_simps)
  have "\<exists>evs. trace (snd (urlopen ?r m e ?w2)) = trace ?w2 @ evs \<and>
           map untimed evs =
             Send 0 # concat (map (\<lambda>i. pause (backoff_factor ?r) i @ [Send 0])
               [Suc (length (history ?r)) ..< Suc (length (history ?r)) + nat (total ?r)])"
  proof (rule urlopen_transient [OF _ mr _ _ assms(6)])
    show "status_forcelist ?r = [429, 500, 502, 503, 504]" by (simp add: retry_strategy_simps)
    show "0 < backoff_factor ?r" using assms(3) by (simp add: retry_strategy_simps)
    show "0 \<le> total ?r" using assms(2) by (simp add: retry_strategy_simps)
  qed
  then obtain evs where evs0: "trace (snd (urlopen ?r m e ?w2)) = trace ?w2 @ evs \<and>
           map untimed evs =
             Send 0 # concat (map (\<lambda>i. pause bf i @ [Send 0]) [Suc 0 ..< Suc 0 + nat n])"
    unfolding retry_strategy_simps list.size ..
  note evs = conjunct1 [OF evs0] conjunct2 [OF evs0]
  have na: "\<forall>ev\<in>set evs. \<not> is_admit ev" using evs(2) by (rule untimed_not_admit)
  have "trace (snd (snd (request c m e w))) = trace w1 @ Admit (clock w1) # evs"
    using r evs(1) assms(1)
    by (simp add: transient_no_redirect [OF assms(6)] snd_session_send)
  then have "since_admit (trace (snd (snd (request c m e w)))) = evs"
    using since_admit_append [OF na] by simp
  then show ?thesis using evs(2) by simp
qed

theorem backoff_schedule_witness:
  "max_retries (APIClient ''http://h/'' None 5 30 4 1) = retry_strategy 4 1 \<and>
   (0::int) \<le> 4 \<and> (0::real) < 1 \<and>
   requests_per_second (APIClient ''http://h/'' None 5 30 4 1) \<noteq> 0 \<and>
   transient (respond (answering (\<lambda>k. plain 503)) 7) \<and>
   map untimed (since_admit (trace (snd (snd (request (APIClient ''http://h/'' None 5 30 4 1) GET
       (answering (\<lambda>k. plain 503)) \<lparr>clock = 1000, trace = []\<rparr>))))) =
     [Send 0, Send 0, Sleep 2, Send 0, Sleep 4, Send 0, Sleep 8, Send 0]"
proof -
  have u: "[1 ..< Suc (nat 4)] = [1, 2, 3, 4]" by (simp add: upt_rec)
  show ?thesis
    using backoff_schedule [where c = "APIClient ''http://h/'' None 5 30 4 1" and n = 4 and bf = 1
      and m = GET and e = "answering (\<lambda>k. plain 503)" and w = "\<lparr>clock = 1000, trace = []\<rparr>"]
    unfolding u
    by (simp add: APIClient_def answering_def plain_def transient_def pause_def)
qed

section \<open>Rate limiter: a sequence of calls\<close>

text \<open>
  C6. One client with a positive rate R makes N calls in sequence, idling for any time
  before each. If no exchange and no suspension takes negative time, then the N clock
  readings at which \<^verbatim>\<open>_rate_limit\<close> returned (where each call's request starts) lie at
  least 1/R apart, however long the client idled before, and the clock moves on by at
  least (N - 1)/R from the beginning to the end of the N calls.
\<close>

theorem calls_spaced:
  assumes "0 < requests_per_second c" and "env_ok e" and "\<forall>x\<in>set cs. 0 \<le> fst x"
  shows "length (drop (length (admit_times (trace w))) (admit_times (trace (snd (calls c e w cs)))))
           = length cs \<and>
         gaps_ok (1 / real_of_int (requests_per_second c))
           (drop (length (admit_times (trace w))) (admit_times (trace (snd (calls c e w cs))))) \<and>
         (real (length cs) - 1) / real_of_int (requests_per_second c)
           \<le> clock (snd (calls c e w cs)) - clock w"
proof -
  let ?d = "1 / real_of_int (requests_per_second c)"
  obtain ts where ts: "admit_times (trace (snd (calls c e w cs))) = admit_times (trace w) @ ts"
    "length ts = length cs" "spaced ?d (last_call c) ts"
    using calls_admissions [OF assms(1,2)] by blast
  have dr: "drop (length (admit_times (trace w))) (admit_times (trace (snd (calls c e w cs)))) = ts"
    by (simp add: ts(1))
  have el: "(real (length cs) - 1) / real_of_int (requests_per_second c)
           \<le> clock (snd (calls c e w cs)) - clock w"
  proof (cases cs)
    case Nil
    then show ?thesis using assms(1) by simp
  next
    case (Cons x rest)
    obtain idle m where x: "x = (idle, m)" by (cases x)
    let ?w0 = "w\<lparr>clock := clock w + idle\<rparr>"
    let ?c1 = "fst (snd (request c m e ?w0))"
    let ?w1 = "snd (snd (request c m e ?w0))"
    have idle: "0 \<le> idle" using assms(3) Cons x by simp
    obtain t where t: "?c1 = c\<lparr>last_call := t\<rparr>" "clock ?w0 \<le> t" "t \<le> clock ?w1"
      using assms(1,2) by (rule request_admission [where m = m and w = ?w0])
    have s: "calls c e w cs = calls ?c1 e ?w1 rest"
      by (simp add: Cons x split: prod.splits)
    show ?thesis
    proof (cases "rest = []")
      case True
      then show ?thesis using t(2,3) idle Cons s by simp
    next
      case False
      have "last_call ?c1 + real (length rest) / real_of_int (requests_per_second ?c1)
              \<le> clock (snd (calls ?c1 e ?w1 rest))"
        using assms(1) by (intro calls_clock [OF _ assms(2) False]) (simp add: t(1))
      then have "t + real (length rest) / real_of_int (requests_per_second c)
              \<le> clock (snd (calls c e w cs))"
        by (simp add: t(1) s)
      moreover have "real (length cs) - 1 = real (length rest)" using Cons by simp
      ultimately show ?thesis using t(2) idle by simp
    qed
  qed
  show ?thesis unfolding dr using ts(2) spaced_gaps_ok [OF ts(3)] el by (intro conjI)
qed

theorem calls_spaced_witness:
  "0 < requests_per_second (APIClient ''http://h/'' None 5 30 4 1) \<and>
   env_ok (answering (\<lambda>k. plain 200)) \<and>
   admit_times (trace (snd (calls (APIClient ''http://h/'' None 5 30 4 1)
     (answering (\<lambda>k. plain 200)) \<lparr>clock = 1000, trace = []\<rparr>
     [(0, GET), (0, POST), (3, GET), (1 / 10, DELETE)]))) =
     [1000, 1000 + 1 / 5, 1003 + 1 / 5, 1003 + 2 / 5] \<and>
   gaps_ok (1 / real_of_int (requests_per_second (APIClient ''http://h/'' None 5 30 4 1)))
     [1000, 1000 + 1 / 5, 1003 + 1 / 5, 1003 + 2 / 5] \<and>
   (3::real) / 5 \<le> clock (snd (calls (APIClient ''http://h/'' None 5 30 4 1)
     (answering (\<lambda>k. plain 200)) \<lparr>clock = 1000, trace = []\<rparr>
     [(0, GET), (0, POST), (3, GET), (1 / 10, DELETE)])) - 1000"
proof -
  have t: "admit_times (trace (snd (calls (APIClient ''http://h/'' None 5 30 4 1)
     (answering (\<lambda>k. plain 200)) \<lparr>clock = 1000, trace = []\<rparr>
     [(0, GET), (0, POST), (3, GET), (1 / 10, DELETE)]))) =
     [1000, 1000 + 1 / 5, 1003 + 1 / 5, 1003 + 2 / 5]"
    by (simp add: run_defs urlopen.simps resolve_redirects.simps)
  show ?thesis
    using calls_spaced [where c = "APIClient ''http://h/'' None 5 30 4 1"
      and e = "answering (\<lambda>k. plain 200)" and w = "\<lparr>clock = 1000, trace = []\<rparr>"
      and cs = "[(0, GET), (0, POST), (3, GET), (1 / 10, DELETE)]"]
    unfolding t
    by (simp add: APIClient_def answering_def env_ok_def)
qed

section \<open>Retries: how many attempts\<close>

text \<open>
  C2, as stated, fails when the server redirects. A client with \<^verbatim>\<open>max_retries\<close> = 0 and a
  server that answers 302 with a Location header and then 200: \<^verbatim>\<open>session.request\<close> follows
  the redirect with a second exchange, so one \<^verbatim>\<open>get\<close> makes two transport attempts, more
  than \<^verbatim>\<open>max_retries\<close> + 1 = 1, and returns the body of the 200.
\<close>

theorem redirect_exceeds_bound:
  "attempts (snd (snd (get (APIClient ''http://h/'' None 5 30 0 (1 / 2))
       (answering (\<lambda>k. if k = 0 then plain 302\<lparr>location := True\<rparr> else plain 200))
       \<lparr>clock = 1000, trace = []\<rparr>))) = 2 \<and>
   fst (get (APIClient ''http://h/'' None 5 30 0 (1 / 2))
       (answering (\<lambda>k. if k = 0 then plain 302\<lparr>location := True\<rparr> else plain 200))
       \<lparr>clock = 1000, trace = []\<rparr>) = Inr (Parsed ''{}'') \<and>
   \<not> int (attempts (snd (snd (get (APIClient ''http://h/'' None 5 30 0 (1 / 2))
       (answering (\<lambda>k. if k = 0 then plain 302\<lparr>location := True\<rparr> else plain 200))
       \<lparr>clock = 1000, trace = []\<rparr>))))
      \<le> int (attempts \<lparr>clock = 1000, trace = []\<rparr>) +
         total (max_retries (APIClient ''http://h/'' None 5 30 0 (1 / 2))) + 1"
  by (simp add: run_defs urlopen.simps resolve_redirects.simps)

text \<open>
  C2, amended. With \<^verbatim>\<open>max_retries\<close> = n \<ge> 0, every exchange of a call (the run of the
  adapter for the request itself or for a redirect that is followed) makes at most n + 1
  transport attempts; a call of \<^verbatim>\<open>_request\<close> makes at most n + 1 when the server sends no
  redirect, and at most 31 * (n + 1) in any case, since at most 30 redirects are followed.
  Against a server that always answers 503, any Retry-After header of which is well
  formed, and with a rate other than 0, each verb makes exactly n + 1 attempts and ends in
  an exception, not in a result: the \<^verbatim>\<open>HTTPError\<close> that \<^verbatim>\<open>raise_for_status\<close> raises for the
  last 503, or the read error when the body of that last answer cannot be read. At n = 4
  that is 5 attempts.
\<close>

theorem attempts_bounded:
  assumes "0 \<le> n" and "max_retries c = retry_strategy n bf"
  shows "int (attempts (snd (adapter_send c m e w))) \<le> int (attempts w) + n + 1 \<and>
         int (attempts (snd (snd (request c m e w)))) \<le> int (attempts w) + 31 * (n + 1) \<and>
         ((\<forall>k r. respond e k = Received r \<longrightarrow> \<not> is_redirect r) \<longrightarrow>
            int (attempts (snd (snd (request c m e w)))) \<le> int (attempts w) + n + 1) \<and>
         (requests_per_second c \<noteq> 0 \<and>
          (\<forall>k. \<exists>resp. respond e k = Received resp \<and> status resp = 503 \<and>
             retry_after resp \<noteq> Some Malformed) \<longrightarrow>
            (\<exists>resp. respond e (attempts w + nat n) = Received resp \<and>
               int (attempts (snd (snd (get c e w)))) = int (attempts w) + n + 1 \<and>
               fst (get c e w) = Inl (if readable resp then HTTPError 503 else ChunkedEncodingError) \<and>
               int (attempts (snd (snd (post c e w)))) = int (attempts w) + n + 1 \<and>
               fst (post c e w) = Inl (if readable resp then HTTPError 503 else ChunkedEncodingError) \<and>
               int (attempts (snd (snd (put c e w)))) = int (attempts w) + n + 1 \<and>
               fst (put c e w) = Inl (if readable resp then HTTPError 503 else ChunkedEncodingError) \<and>
               int (attempts (snd (snd (delete c e w)))) = int (attempts w) + n + 1 \<and>
               fst (delete c e w) = Inl (if readable resp then HTTPError 503 else ChunkedEncodingError)))"
proof (intro conjI impI)
  show "int (attempts (snd (adapter_send c m e w))) \<le> int (attempts w) + n + 1"
    using urlopen_attempts_le [of "max_retries c" m e w] assms
    by (simp add: adapter_send_def retry_strategy_simps)
next
  have "(max_redirects + 1) * (nat n + 1) = nat (31 * (n + 1))"
    using assms(1) by (simp add: max_redirects_def nat_add_distrib nat_mult_distrib)
  then show "int (attempts (snd (snd (request c m e w)))) \<le> int (attempts w) + 31 * (n + 1)"
    using request_attempts_le [of c m e w] assms by (simp add: retry_strategy_simps)
next
  assume "\<forall>k r. respond e k = Received r \<longrightarrow> \<not> is_redirect r"
  from request_attempts_plain_le [OF this, of c m w]
  show "int (attempts (snd (snd (request c m e w)))) \<le> int (attempts w) + n + 1"
    using assms by (simp add: retry_strategy_simps)
next
  assume h: "requests_per_second c \<noteq> 0 \<and>
    (\<forall>k. \<exists>resp. respond e k = Received resp \<and> status resp = 503 \<and>
       retry_after resp \<noteq> Some Malformed)"
  have all: "attempts (snd (snd (request c m' e w))) = attempts w + nat n + 1 \<and>
         (\<exists>resp. respond e (attempts w + nat n) = Received resp \<and> status resp = 503 \<and>
                 fst (request c m' e w) = read_content resp)"
    if "m' \<in> {GET, POST, PUT, DELETE, PATCH}" for m'
    using request_always_503 [OF _ assms(2,1) _ that] h by blast
  obtain resp where resp: "respond e (attempts w + nat n) = Received resp" "status resp = 503"
    using all [of GET] by auto
  have r: "fst (request c m' e w) = read_content resp"
    if "m' \<in> {GET, POST, PUT, DELETE, PATCH}" for m'
    using all [OF that] resp(1) by auto
  have a: "int (attempts (snd (snd (request c m' e w)))) = int (attempts w) + n + 1"
    if "m' \<in> {GET, POST, PUT, DELETE, PATCH}" for m'
    using all [OF that] assms(1) by simp
  have "int (attempts (snd (snd (get c e w)))) = int (attempts w) + n + 1"
    using a [of GET] by (simp add: snd_get)
  moreover have "fst (get c e w) = Inl (if readable resp then HTTPError 503 else ChunkedEncodingError)"
  proof -
    have "fst (request c GET e w) = read_content resp" using r [of GET] by simp
    then show ?thesis unfolding fst_get by (simp only: raise_503 [OF resp(2)])
  qed
  moreover have "int (attempts (snd (snd (post c e w)))) = int (attempts w) + n + 1"
    using a [of POST] by (simp add: snd_post)
  moreover have "fst (post c e w) = Inl (if readable resp then HTTPError 503 else ChunkedEncodingError)"
  proof -
    have "fst (request c POST e w) = read_content resp" using r [of POST] by simp
    then show ?thesis unfolding fst_post by (simp only: raise_503 [OF resp(2)])
  qed
  moreover have "int (attempts (snd (snd (put c e w)))) = int (attempts w) + n + 1"
    using a [of PUT] by (simp add: snd_put)
  moreover have "fst (put c e w) = Inl (if readable resp then HTTPError 503 else ChunkedEncodingError)"
  proof -
    have "fst (request c PUT e w) = read_content resp" using r [of PUT] by simp
    then show ?thesis unfolding fst_put by (simp only: raise_503 [OF resp(2)])
  qed
  moreover have "int (attempts (snd (snd (delete c e w)))) = int (attempts w) + n + 1"
    using a [of DELETE] by (simp add: snd_delete)
  moreover have "fst (delete c e w) = Inl (if readable resp then HTTPError 503 else ChunkedEncodingError)"
  proof -
    have "fst (request c DELETE e w) = read_content resp" using r [of DELETE] by simp
    then show ?thesis unfolding fst_delete by (simp only: raise_503 [OF resp(2)])
  qed
  ultimately show "\<exists>resp. respond e (attempts w + nat n) = Received resp \<and>
               int (attempts (snd (snd (get c e w)))) = int (attempts w) + n + 1 \<and>
               fst (get c e w) = Inl (if readable resp then HTTPError 503 else ChunkedEncodingError) \<and>
               int (attempts (snd (snd (post c e w)))) = int (attempts w) + n + 1 \<and>
               fst (post c e w) = Inl (if readable resp then HTTPError 503 else ChunkedEncodingError) \<and>
               int (attempts (snd (snd (put c e w)))) = int (attempts w) + n + 1 \<and>
               fst (put c e w) = Inl (if readable resp then HTTPError 503 else ChunkedEncodingError) \<and>
               int (attempts (snd (snd (delete c e w)))) = int (attempts w) + n + 1 \<and>
               fst (delete c e w) = Inl (if readable resp then HTTPError 503 else ChunkedEncodingError)"
    using resp(1) by (intro exI [of _ resp] conjI)
qed

theorem attempts_bounded_witness:
  "(0::int) \<le> 4 \<and>
   max_retries (APIClient ''http://h/'' None 5 30 4 1) = retry_strategy 4 1 \<and>
   requests_per_second (APIClient ''http://h/'' None 5 30 4 1) \<noteq> 0 \<and>
   attempts (snd (snd (get (APIClient ''http://h/'' None 5 30 4 1)
     (answering (\<lambda>k. plain 503)) \<lparr>clock = 1000, trace = []\<rparr>))) = 5 \<and>
   fst (get (APIClient ''http://h/'' None 5 30 4 1)
     (answering (\<lambda>k. plain 503)) \<lparr>clock = 1000, trace = []\<rparr>) = Inl (HTTPError 503)"
  using attempts_bounded [where n = 4 and bf = 1 and c = "APIClient ''http://h/'' None 5 30 4 1"
      and e = "answering (\<lambda>k. plain 503)" and w = "\<lparr>clock = 1000, trace = []\<rparr>" and m = GET]
  by (simp add: APIClient_def answering_def plain_def attempts_def)

section \<open>What the verbs return\<close>

text \<open>
  C8, as stated, fails for \<^verbatim>\<open>delete\<close>. Against a server that answers 200 with the JSON
  body \<open>{}\<close>, \<^verbatim>\<open>get\<close> returns the decoded body and \<^verbatim>\<open>delete\<close> returns \<^verbatim>\<open>None\<close>.
\<close>

theorem delete_returns_none:
  "fst (get (APIClient ''http://h/'' None 5 30 5 (1 / 2)) (answering (\<lambda>k. plain 200))
          \<lparr>clock = 1000, trace = []\<rparr>) = Inr (Parsed ''{}'') \<and>
   fst (delete (APIClient ''http://h/'' None 5 30 5 (1 / 2)) (answering (\<lambda>k. plain 200))
          \<lparr>clock = 1000, trace = []\<rparr>) = Inr PyNone \<and>
   fst (delete (APIClient ''http://h/'' None 5 30 5 (1 / 2)) (answering (\<lambda>k. plain 200))
          \<lparr>clock = 1000, trace = []\<rparr>) \<noteq> Inr (Parsed ''{}'')"
  by (simp add: run_defs urlopen.simps resolve_redirects.simps)

text \<open>
  C8, amended. What a verb hands to its caller is fixed by how its \<^verbatim>\<open>_request\<close> ends.
  When the request raises, the verb raises the same exception. When the request ends with
  a response whose status is from 400 to 599, every verb, \<^verbatim>\<open>delete\<close> too, raises the
  \<^verbatim>\<open>HTTPError\<close> for that status. Otherwise \<^verbatim>\<open>get\<close>, \<^verbatim>\<open>post\<close> and \<^verbatim>\<open>put\<close> return the decoded
  body of that response (and raise the decoding error when the body is no JSON document),
  and \<^verbatim>\<open>delete\<close> returns \<^verbatim>\<open>None\<close>.
\<close>

theorem verbs_results:
  "fst (get c e w) =
     (case fst (request c GET e w) of
        Inl ex \<Rightarrow> Inl ex
      | Inr r \<Rightarrow>
          if 400 \<le> status r \<and> status r < 600 then Inl (HTTPError (status r))
          else (case decoded r of None \<Rightarrow> Inl JSONDecodeError | Some j \<Rightarrow> Inr (Parsed j))) \<and>
   fst (post c e w) =
     (case fst (request c POST e w) of
        Inl ex \<Rightarrow> Inl ex
      | Inr r \<Rightarrow>
          if 400 \<le> status r \<and> status r < 600 then Inl (HTTPError (status r))
          else (case decoded r of None \<Rightarrow> Inl JSONDecodeError | Some j \<Rightarrow> Inr (Parsed j))) \<and>
   fst (put c e w) =
     (case fst (request c PUT e w) of
        Inl ex \<Rightarrow> Inl ex
      | Inr r \<Rightarrow>
          if 400 \<le> status r \<and> status r < 600 then Inl (HTTPError (status r))
          else (case decoded r of None \<Rightarrow> Inl JSONDecodeError | Some j \<Rightarrow> Inr (Parsed j))) \<and>
   fst (delete c e w) =
     (case fst (request c DELETE e w) of
        Inl ex \<Rightarrow> Inl ex
      | Inr r \<Rightarrow>
          if 400 \<le> status r \<and> status r < 600 then Inl (HTTPError (status r))
          else Inr PyNone)"
proof -
  have j: "(case raise_for_status r of Inl ex \<Rightarrow> Inl ex | Inr u \<Rightarrow> response_json r) =
      (if 400 \<le> status r \<and> status r < 600 then Inl (HTTPError (status r))
       else (case decoded r of None \<Rightarrow> Inl JSONDecodeError | Some j \<Rightarrow> Inr (Parsed j)))" for r
    by (auto simp: raise_for_status_def response_json_def)
  have n: "(case raise_for_status r of Inl ex \<Rightarrow> Inl ex | Inr u \<Rightarrow> Inr PyNone) =
      (if 400 \<le> status r \<and> status r < 600 then Inl (HTTPError (status r)) else Inr PyNone)" for r
    by (auto simp: raise_for_status_def)
  show ?thesis unfolding fst_get fst_post fst_put fst_delete j n by (intro conjI refl)
qed

theorem verbs_results_witness:
  "fst (request (APIClient ''http://h/'' None 5 30 5 (1 / 2)) DELETE (answering (\<lambda>k. plain 404))
          \<lparr>clock = 1000, trace = []\<rparr>) = Inr (plain 404) \<and>
   fst (delete (APIClient ''http://h/'' None 5 30 5 (1 / 2)) (answering (\<lambda>k. plain 404))
          \<lparr>clock = 1000, trace = []\<rparr>) = Inl (HTTPError 404) \<and>
   fst (request (APIClient ''http://h/'' None 5 30 5 (1 / 2)) PUT (answering (\<lambda>k. plain 201))
          \<lparr>clock = 1000, trace = []\<rparr>) = Inr (plain 201) \<and>
   fst (put (APIClient ''http://h/'' None 5 30 5 (1 / 2)) (answering (\<lambda>k. plain 201))
          \<lparr>clock = 1000, trace = []\<rparr>) = Inr (Parsed ''{}'')"
proof -
  have r: "fst (request (APIClient ''http://h/'' None 5 30 5 (1 / 2)) DELETE (answering (\<lambda>k. plain 404))
          \<lparr>clock = 1000, trace = []\<rparr>) = Inr (plain 404)"
    by (simp add: run_defs urlopen.simps resolve_redirects.simps)
  have p: "fst (request (APIClient ''http://h/'' None 5 30 5 (1 / 2)) PUT (answering (\<lambda>k. plain 201))
          \<lparr>clock = 1000, trace = []\<rparr>) = Inr (plain 201)"
    by (simp add: run_defs urlopen.simps resolve_redirects.simps)
  show ?thesis
    using verbs_results [where c = "APIClient ''http://h/'' None 5 30 5 (1 / 2)"
        and e = "answering (\<lambda>k. plain 404)" and w = "\<lparr>clock = 1000, trace = []\<rparr>"]
      verbs_results [where c = "APIClient ''http://h/'' None 5 30 5 (1 / 2)"
        and e = "answering (\<lambda>k. plain 201)" and w = "\<lparr>clock = 1000, trace = []\<rparr>"]
    unfolding r p by (simp add: plain_def)
qed

section \<open>Classification of outcomes\<close>




section \<open>Rate limiter: concurrent callers\<close>

text \<open>
  C9, as stated, fails: nothing serializes \<^verbatim>\<open>_rate_limit\<close>. Two callers on one client
  with one request per second, the clock at 1000: both do their reads before either goes
  on, both find enough time elapsed, and both are admitted at the reading 1000, not one
  second apart.
\<close>

theorem callers_admitted_together:
  "admit_times (trace (fst (snd (interleave
       \<lparr>respond = (\<lambda>k. Failed ProtocolError), latency = (\<lambda>k. 0), oversleep = (\<lambda>k. 0)\<rparr>
       [Reads 0, Reads 1, Finishes 0, Finishes 1]
       (APIClient ''http://h/'' None 1 30 5 (1 / 2), \<lparr>clock = 1000, trace = []\<rparr>, Map.empty)))))
     = [1000, 1000] \<and>
   \<not> gaps_ok (1 / real_of_int (requests_per_second (APIClient ''http://h/'' None 1 30 5 (1 / 2))))
       [1000, 1000]"
  by (simp add: rate_limit_read_def rate_limit_rest_def APIClient_def Let_def)

text \<open>
  C9, amended. \<^verbatim>\<open>_rate_limit\<close> is its reads followed by the rest, with no lock around
  them. For a positive rate R: when one caller runs both parts before the next caller
  starts, the two admissions are at least 1/R apart (given that no suspension ends
  early); when two callers both read before either goes on, at a moment when at least 1/R
  has elapsed since the last call, neither suspends and both are admitted at the same
  clock reading, so the combined rate of concurrent callers is not held to the ceiling.
\<close>

theorem rate_limit_not_serialized:
  assumes "0 < requests_per_second c"
  shows "rate_limit c e w = rate_limit_rest (rate_limit_read c w) c e w \<and>
         ((\<forall>k. 0 \<le> oversleep e k) \<longrightarrow>
            (\<exists>t1 t2. admit_times (trace (fst (snd (interleave e
                  [Reads 0, Finishes 0, Reads 1, Finishes 1] (c, w, Map.empty))))) =
                admit_times (trace w) @ [t1, t2] \<and>
              t1 + 1 / real_of_int (requests_per_second c) \<le> t2)) \<and>
         (1 / real_of_int (requests_per_second c) \<le> clock w - last_call c \<longrightarrow>
            trace (fst (snd (interleave e
                  [Reads 0, Reads 1, Finishes 0, Finishes 1] (c, w, Map.empty)))) =
              trace w @ [Admit (clock w), Admit (clock w)] \<and>
            clock (fst (snd (interleave e
                  [Reads 0, Reads 1, Finishes 0, Finishes 1] (c, w, Map.empty)))) = clock w)"
proof (intro conjI impI)
  show "rate_limit c e w = rate_limit_rest (rate_limit_read c w) c e w"
    by (rule rate_limit_parts)
next
  assume o: "\<forall>k. 0 \<le> oversleep e k"
  obtain w1 where w1: "rate_limit c e w = Inr (c\<lparr>last_call := clock w1\<rparr>, w1)"
    "admit_times (trace w1) = admit_times (trace w) @ [clock w1]"
    using assms o by (rule rate_limit_admission [where w = w])
  let ?c1 = "c\<lparr>last_call := clock w1\<rparr>"
  have "0 < requests_per_second ?c1" using assms by simp
  then obtain w2 where w2: "rate_limit ?c1 e w1 = Inr (?c1\<lparr>last_call := clock w2\<rparr>, w2)"
    "admit_times (trace w2) = admit_times (trace w1) @ [clock w2]"
    "last_call ?c1 + 1 / real_of_int (requests_per_second ?c1) \<le> clock w2"
    using o by (rule rate_limit_admission [where w = w1])
  have "fst (snd (interleave e [Reads 0, Finishes 0, Reads 1, Finishes 1] (c, w, Map.empty))) = w2"
    using w1(1) w2(1) by (simp add: rate_limit_parts)
  moreover have "admit_times (trace w2) = admit_times (trace w) @ [clock w1, clock w2]"
    using w1(2) w2(2) by simp
  moreover have "clock w1 + 1 / real_of_int (requests_per_second c) \<le> clock w2"
    using w2(3) by simp
  ultimately show "\<exists>t1 t2. admit_times (trace (fst (snd (interleave e
                  [Reads 0, Finishes 0, Reads 1, Finishes 1] (c, w, Map.empty))))) =
                admit_times (trace w) @ [t1, t2] \<and>
              t1 + 1 / real_of_int (requests_per_second c) \<le> t2"
    by (intro exI [of _ "clock w1"] exI [of _ "clock w2"]) simp
next
  assume h: "1 / real_of_int (requests_per_second c) \<le> clock w - last_call c"
  show "trace (fst (snd (interleave e
                  [Reads 0, Reads 1, Finishes 0, Finishes 1] (c, w, Map.empty)))) =
              trace w @ [Admit (clock w), Admit (clock w)]"
    using assms h by (simp add: rate_limit_read_def rate_limit_rest_def Let_def)
  show "clock (fst (snd (interleave e
                  [Reads 0, Reads 1, Finishes 0, Finishes 1] (c, w, Map.empty)))) = clock w"
    using assms h by (simp add: rate_limit_read_def rate_limit_rest_def Let_def)
qed

theorem rate_limit_not_serialized_witness:
  "0 < requests_per_second (APIClient ''http://h/'' None 1 30 5 (1 / 2)) \<and>
   1 / real_of_int (requests_per_second (APIClient ''http://h/'' None 1 30 5 (1 / 2)))
     \<le> clock \<lparr>clock = 1000, trace = []\<rparr> - last_call (APIClient ''http://h/'' None 1 30 5 (1 / 2)) \<and>
   trace (fst (snd (interleave
       \<lparr>respond = (\<lambda>k. Failed ProtocolError), latency = (\<lambda>k. 0), oversleep = (\<lambda>k. 0)\<rparr>
       [Reads 0, Reads 1, Finishes 0, Finishes 1]
       (APIClient ''http://h/'' None 1 30 5 (1 / 2), \<lparr>clock = 1000, trace = []\<rparr>, Map.empty))))
     = [Admit 1000, Admit 1000] \<and>
   admit_times (trace (fst (snd (interleave
       \<lparr>respond = (\<lambda>k. Failed ProtocolError), latency = (\<lambda>k. 0), oversleep = (\<lambda>k. 0)\<rparr>
       [Reads 0, Finishes 0, Reads 1, Finishes 1]
       (APIClient ''http://h/'' None 1 30 5 (1 / 2), \<lparr>clock = 1000, trace = []\<rparr>, Map.empty)))))
     = [1000, 1001]"
proof -
  have s: "admit_times (trace (fst (snd (interleave
       \<lparr>respond = (\<lambda>k. Failed ProtocolError), latency = (\<lambda>k. 0), oversleep = (\<lambda>k. 0)\<rparr>
       [Reads 0, Finishes 0, Reads 1, Finishes 1]
       (APIClient ''http://h/'' None 1 30 5 (1 / 2), \<lparr>clock = 1000, trace = []\<rparr>, Map.empty)))))
     = [1000, 1001]"
    by (simp add: rate_limit_read_def rate_limit_rest_def APIClient_def Let_def time_sleep_def
        sleeps_def)
  show ?thesis
    using rate_limit_not_serialized [where c = "APIClient ''http://h/'' None 1 30 5 (1 / 2)"
        and w = "\<lparr>clock = 1000, trace = []\<rparr>"
        and e = "\<lparr>respond = (\<lambda>k. Failed ProtocolError), latency = (\<lambda>k. 0), oversleep = (\<lambda>k. 0)\<rparr>"]
      s
    by (simp add: APIClient_def)
qed

end
